theory Spec2Isabelle
  imports Complex_Main "HOL-Library.Multiset" "HOL-Library.Product_Lexorder"
begin

section \<open>Values\<close>

text \<open>
  A Python \<^verbatim>\<open>str\<close> is a sequence of Unicode code points, and PostgreSQL counts the
  length of a \<^verbatim>\<open>VARCHAR\<close> in characters, so a string is a list of code points.
  \<open>ascii\<close> reads an ASCII literal of the source as such a list.
\<close>

type_synonym pystr = "nat list"

definition ascii :: "string \<Rightarrow> pystr" where
  "ascii s = map of_char s"

text \<open>
  The values of JSON as \<^verbatim>\<open>json.loads\<close> yields them and as the handlers build them
  (\<^verbatim>\<open>None\<close>, \<^verbatim>\<open>bool\<close>, \<^verbatim>\<open>int\<close>, \<^verbatim>\<open>float\<close>, \<^verbatim>\<open>str\<close>, \<^verbatim>\<open>list\<close>,
  \<^verbatim>\<open>dict\<close>). A dict keeps its insertion order: an association list.
\<close>

datatype json =
    JNull
  | JBool bool
  | JInt int
  | JFloat real
  | JStr pystr
  | JArr "json list"
  | JObj "(pystr \<times> json) list"

text \<open>
  A \<^verbatim>\<open>TIMESTAMP\<close> value as psycopg2 hands it to Python: a naive
  \<^verbatim>\<open>datetime.datetime\<close>.
\<close>

record datetime =
  year :: nat
  month :: nat
  day :: nat
  hour :: nat
  minute :: nat
  second :: nat
  microsecond :: nat

text \<open>The order of timestamps: lexicographic on the fields, most significant first.\<close>

definition dt_key :: "datetime \<Rightarrow> nat \<times> nat \<times> nat \<times> nat \<times> nat \<times> nat \<times> nat" where
  "dt_key t = (year t, month t, day t, hour t, minute t, second t, microsecond t)"

text \<open>
  \<^verbatim>\<open>str(datetime)\<close> is \<^verbatim>\<open>isoformat(sep=' ')\<close>:
  \<^verbatim>\<open>%04d-%02d-%02d %02d:%02d:%02d\<close>, followed by \<^verbatim>\<open>.%06d\<close> of the microseconds
  when they are not zero. \<open>dec\<close> is the decimal numeral of a number, \<open>zfill\<close> pads
  it with zeros on the left (48 is the digit 0, 45 the hyphen, 32 the space, 58 the colon,
  46 the full stop).
\<close>

function dec :: "nat \<Rightarrow> pystr" where
  "dec n = (if n < 10 then [48 + n] else dec (n div 10) @ [48 + n mod 10])"
  by pat_completeness auto
termination
  by (relation "measure (\<lambda>n. n)") auto

definition zfill :: "nat \<Rightarrow> pystr \<Rightarrow> pystr" where
  "zfill w t = replicate (w - length t) 48 @ t"

definition str_datetime :: "datetime \<Rightarrow> pystr" where
  "str_datetime t =
     zfill 4 (dec (year t)) @ [45] @ zfill 2 (dec (month t)) @ [45] @ zfill 2 (dec (day t))
     @ [32]
     @ zfill 2 (dec (hour t)) @ [58] @ zfill 2 (dec (minute t)) @ [58] @ zfill 2 (dec (second t))
     @ (if microsecond t = 0 then [] else [46] @ zfill 6 (dec (microsecond t)))"

section \<open>The database\<close>

text \<open>
  A row of the table \<^verbatim>\<open>posts\<close> (main.py, lines 36-41), with the columns in the order
  of the \<^verbatim>\<open>SELECT\<close> of line 55. The columns \<^verbatim>\<open>username\<close>, \<^verbatim>\<open>content\<close> and
  \<^verbatim>\<open>created_at\<close> are nullable in the table definition, but the only \<^verbatim>\<open>INSERT\<close> of the
  program (line 74) gives each of them a value, so a row holds values.
\<close>

record row =
  col_id :: int
  col_username :: pystr
  col_content :: pystr
  col_created_at :: datetime

text \<open>
  The table with its sequence \<^verbatim>\<open>posts_id_seq\<close>, which \<^verbatim>\<open>id SERIAL\<close> creates:
  \<open>seq\<close> is the value the next \<^verbatim>\<open>nextval\<close> returns. The rows are kept in insertion order.
\<close>

record table =
  rows :: "row list"
  seq :: int

text \<open>
  The state the handlers work on: the table \<^verbatim>\<open>posts\<close> of the database, absent before
  its creation, and the number of connections that \<^verbatim>\<open>get_db\<close> has opened and that no
  \<^verbatim>\<open>conn.close()\<close> has closed.
\<close>

record state =
  posts_table :: "table option"
  open_conns :: nat

text \<open>
  What a request finds outside the program: whether \<^verbatim>\<open>psycopg2.connect\<close> reaches the
  server, and the server's \<^verbatim>\<open>CURRENT_TIMESTAMP\<close>.
\<close>

record env =
  connect_ok :: bool
  now :: datetime

text \<open>The exceptions of psycopg2 that the statements of the program can raise.\<close>

datatype error =
    OperationalError
  | UndefinedTable
  | StringDataRightTruncation
  | SequenceLimit
  | UniqueViolation
  | ValueError
  | UnicodeEncodeError

subsection \<open>The statements\<close>

text \<open>
  \<^verbatim>\<open>CREATE TABLE IF NOT EXISTS posts (...)\<close> (lines 35-42): a table that exists is left
  as it is; a new table is empty and its sequence starts at 1.
\<close>

definition create_table_if_not_exists :: "table option \<Rightarrow> table option" where
  "create_table_if_not_exists d =
     (case d of None \<Rightarrow> Some \<lparr>rows = [], seq = 1\<rparr> | Some t \<Rightarrow> Some t)"

text \<open>
  \<^verbatim>\<open>SELECT id, username, content, created_at FROM posts ORDER BY created_at DESC LIMIT 50\<close>
  (line 55). SQL leaves the order of rows with equal \<^verbatim>\<open>created_at\<close> open; here the
  later inserted one comes first.
\<close>

definition created_key :: "row \<Rightarrow> nat \<times> nat \<times> nat \<times> nat \<times> nat \<times> nat \<times> nat" where
  "created_key r = dt_key (col_created_at r)"

definition order_by_created_at_desc :: "row list \<Rightarrow> row list" where
  "order_by_created_at_desc rs = rev (sort_key created_key rs)"

definition select_posts :: "table option \<Rightarrow> error + row list" where
  "select_posts d =
     (case d of
        None \<Rightarrow> Inl UndefinedTable
      | Some t \<Rightarrow> Inr (take 50 (order_by_created_at_desc (rows t))))"

text \<open>\<^verbatim>\<open>SELECT COUNT(*) FROM posts\<close> (line 88).\<close>

definition select_count :: "table option \<Rightarrow> error + nat" where
  "select_count d =
     (case d of None \<Rightarrow> Inl UndefinedTable | Some t \<Rightarrow> Inr (length (rows t)))"

text \<open>
  Storing a string into a \<^verbatim>\<open>VARCHAR(n)\<close> column (PostgreSQL documentation, section
  8.3, Character Types): a longer value is an error, value too long for type character
  varying(n), unless the characters after the first \<open>n\<close> are all spaces (code point 32),
  which are cut off, as the SQL standard requires.
\<close>

definition varchar :: "nat \<Rightarrow> pystr \<Rightarrow> error + pystr" where
  "varchar n v =
     (if length v \<le> n then Inr v
      else if list_all (\<lambda>c. c = 32) (drop n v) then Inr (take n v)
      else Inl StringDataRightTruncation)"

text \<open>
  \<^verbatim>\<open>nextval\<close> of the sequence behind \<^verbatim>\<open>id SERIAL\<close>: a 32-bit \<^verbatim>\<open>integer\<close>
  sequence that does not cycle.
\<close>

definition nextval :: "table \<Rightarrow> error + int \<times> table" where
  "nextval t =
     (if seq t > 2147483647 then Inl SequenceLimit
      else Inr (seq t, t\<lparr>seq := seq t + 1\<rparr>))"

text \<open>
  \<^verbatim>\<open>INSERT INTO posts (username, content) VALUES (%s, %s) RETURNING id\<close> (lines 73-76)
  followed by \<^verbatim>\<open>conn.commit()\<close> (line 78), on a table that exists. The \<^verbatim>\<open>id\<close> is
  the next value of the sequence, \<^verbatim>\<open>created_at\<close> is the column's default,
  \<^verbatim>\<open>CURRENT_TIMESTAMP\<close>. A value taken from the sequence stays taken when the statement
  then fails on the primary key.
\<close>

definition insert_values :: "datetime \<Rightarrow> pystr \<Rightarrow> pystr \<Rightarrow> table \<Rightarrow> (error + int) \<times> table" where
  "insert_values ts u c t =
     (case varchar 100 u of
        Inl err \<Rightarrow> (Inl err, t)
      | Inr u' \<Rightarrow>
          (case nextval t of
             Inl err \<Rightarrow> (Inl err, t)
           | Inr (i, t1) \<Rightarrow>
               (if i \<in> set (map col_id (rows t)) then (Inl UniqueViolation, t1)
                else (Inr i, t1\<lparr>rows := rows t @
                  [\<lparr>col_id = i, col_username = u', col_content = c, col_created_at = ts\<rparr>]\<rparr>))))"

text \<open>
  psycopg2 writes each parameter into the statement as a string literal: it encodes the
  string in the encoding of the connection, UTF-8, which has no encoding for a lone
  surrogate (55296 to 57343; \<^verbatim>\<open>UnicodeEncodeError\<close>), and then refuses a string with
  a NUL character (\<^verbatim>\<open>ValueError\<close>). A value above 1114111 is no code point of a Python
  string and is given no encoding.
\<close>

definition scalar_value :: "nat \<Rightarrow> bool" where
  "scalar_value c \<longleftrightarrow> c \<le> 1114111 \<and> \<not> (55296 \<le> c \<and> c \<le> 57343)"

definition adapt_str :: "pystr \<Rightarrow> error + pystr" where
  "adapt_str v =
     (if \<not> list_all scalar_value v then Inl UnicodeEncodeError
      else if 0 \<in> set v then Inl ValueError
      else Inr v)"

text \<open>
  \<^verbatim>\<open>cur.execute\<close> of the \<^verbatim>\<open>INSERT\<close>. The parameters are adapted in their order,
  \<^verbatim>\<open>username\<close> first, before anything is sent; the server refuses the statement when
  the table is absent.
\<close>

definition insert_post :: "datetime \<Rightarrow> pystr \<Rightarrow> pystr \<Rightarrow> table option \<Rightarrow> (error + int) \<times> table option" where
  "insert_post ts u c d =
     (case adapt_str u of
        Inl err \<Rightarrow> (Inl err, d)
      | Inr u1 \<Rightarrow>
          (case adapt_str c of
             Inl err \<Rightarrow> (Inl err, d)
           | Inr c1 \<Rightarrow>
               (case d of
                  None \<Rightarrow> (Inl UndefinedTable, None)
                | Some t \<Rightarrow> (case insert_values ts u1 c1 t of (r, t') \<Rightarrow> (r, Some t')))))"

section \<open>The program\<close>

text \<open>
  \<^verbatim>\<open>get_db\<close> (lines 19-25) opens a connection or raises; \<^verbatim>\<open>conn.close()\<close> closes
  one. A handler's result is the dict it returns or the exception that left it, and the
  state it leaves behind. An exception leaves the handler at the statement that raises
  it, so the statements after it, \<^verbatim>\<open>conn.close()\<close> among them, are not executed. The
  cursor has no state of its own here and is left out.
\<close>

definition get_db :: "env \<Rightarrow> state \<Rightarrow> error + state" where
  "get_db e s =
     (if connect_ok e then Inr (s\<lparr>open_conns := open_conns s + 1\<rparr>) else Inl OperationalError)"

definition conn_close :: "state \<Rightarrow> state" where
  "conn_close s = s\<lparr>open_conns := open_conns s - 1\<rparr>"

text \<open>The request model \<^verbatim>\<open>Post\<close> (lines 27-29).\<close>

record Post =
  username :: pystr
  content :: pystr

text \<open>\<^verbatim>\<open>startup\<close> (lines 31-45).\<close>

definition startup :: "env \<Rightarrow> state \<Rightarrow> (error + unit) \<times> state" where
  "startup e s =
     (case get_db e s of
        Inl err \<Rightarrow> (Inl err, s)
      | Inr s1 \<Rightarrow>
          let s2 = s1\<lparr>posts_table := create_table_if_not_exists (posts_table s1)\<rparr>
          in (Inr (), conn_close s2))"

text \<open>\<^verbatim>\<open>read_root\<close> (lines 47-49); 128051 is the code point of the whale.\<close>

definition read_root :: "state \<Rightarrow> (error + json) \<times> state" where
  "read_root s =
     (Inr (JObj [(ascii ''message'', JStr ([128051] @ ascii '' DevOps Social API is live!''))]), s)"

text \<open>\<^verbatim>\<open>get_posts\<close> (lines 51-67). The loop of lines 57-63 maps each row to a dict.\<close>

definition post_dict :: "row \<Rightarrow> json" where
  "post_dict r =
     JObj [(ascii ''id'', JInt (col_id r)),
           (ascii ''username'', JStr (col_username r)),
           (ascii ''content'', JStr (col_content r)),
           (ascii ''created_at'', JStr (str_datetime (col_created_at r)))]"

definition get_posts :: "env \<Rightarrow> state \<Rightarrow> (error + json) \<times> state" where
  "get_posts e s =
     (case get_db e s of
        Inl err \<Rightarrow> (Inl err, s)
      | Inr s1 \<Rightarrow>
          (case select_posts (posts_table s1) of
             Inl err \<Rightarrow> (Inl err, s1)
           | Inr fetched \<Rightarrow>
               let posts = map post_dict fetched
               in (Inr (JObj [(ascii ''posts'', JArr posts)]), conn_close s1)))"

text \<open>\<^verbatim>\<open>create_post\<close> (lines 69-82).\<close>

definition create_post :: "env \<Rightarrow> Post \<Rightarrow> state \<Rightarrow> (error + json) \<times> state" where
  "create_post e post s =
     (case get_db e s of
        Inl err \<Rightarrow> (Inl err, s)
      | Inr s1 \<Rightarrow>
          (case insert_post (now e) (username post) (content post) (posts_table s1) of
             (Inl err, d) \<Rightarrow> (Inl err, s1\<lparr>posts_table := d\<rparr>)
           | (Inr post_id, d) \<Rightarrow>
               (Inr (JObj [(ascii ''id'', JInt post_id),
                           (ascii ''message'', JStr (ascii ''Post created!''))]),
                conn_close (s1\<lparr>posts_table := d\<rparr>))))"

text \<open>
  \<^verbatim>\<open>get_stats\<close> (lines 84-96); 128051 and 10024 are the code points of the whale and
  of the sparkles.
\<close>

definition get_stats :: "env \<Rightarrow> state \<Rightarrow> (error + json) \<times> state" where
  "get_stats e s =
     (case get_db e s of
        Inl err \<Rightarrow> (Inl err, s)
      | Inr s1 \<Rightarrow>
          (case select_count (posts_table s1) of
             Inl err \<Rightarrow> (Inl err, s1)
           | Inr count' \<Rightarrow>
               (Inr (JObj [(ascii ''total_posts'', JInt (int count')),
                           (ascii ''docker_magic'', JStr [128051, 10024])]),
                conn_close s1)))"

section \<open>Requests and responses\<close>

text \<open>
  Modelled from the spec: the validation of the request body against the model
  \<^verbatim>\<open>Post\<close>, which FastAPI and pydantic do before \<^verbatim>\<open>create_post\<close> is called and
  whose code is in those libraries. Both fields are required and must be present as
  strings; an absent or wrong-typed field fails validation, with field-level detail.
  \<^verbatim>\<open>json.loads\<close> keeps the last of several bindings of a key; other keys are ignored.
\<close>

datatype verror = Missing pystr | StringType pystr | ModelType

definition dict_get :: "(pystr \<times> json) list \<Rightarrow> pystr \<Rightarrow> json option" where
  "dict_get kvs k = map_of (rev kvs) k"

definition str_field :: "(pystr \<times> json) list \<Rightarrow> pystr \<Rightarrow> verror list + pystr" where
  "str_field kvs k =
     (case dict_get kvs k of
        None \<Rightarrow> Inl [Missing k]
      | Some v \<Rightarrow> (case v of JStr x \<Rightarrow> Inr x | _ \<Rightarrow> Inl [StringType k]))"

definition validate_post :: "json \<Rightarrow> verror list + Post" where
  "validate_post body =
     (case body of
        JObj kvs \<Rightarrow>
          (case str_field kvs (ascii ''username'') of
             Inl e1 \<Rightarrow>
               (case str_field kvs (ascii ''content'') of
                  Inl e2 \<Rightarrow> Inl (e1 @ e2)
                | Inr c \<Rightarrow> Inl e1)
           | Inr u \<Rightarrow>
               (case str_field kvs (ascii ''content'') of
                  Inl e2 \<Rightarrow> Inl e2
                | Inr c \<Rightarrow> Inr \<lparr>username = u, content = c\<rparr>))
      | _ \<Rightarrow> Inl [ModelType])"

text \<open>
  The routes (lines 47, 51, 69, 84) and what the framework answers: the handler's dict
  with status 200, the validation errors with status 422, or status 500 for an exception
  that leaves the handler.
\<close>

datatype request = GetRoot | GetPosts | PostPosts json | GetStats

datatype response = OK json | UnprocessableEntity "verror list" | InternalServerError error

definition respond :: "(error + json) \<times> state \<Rightarrow> response \<times> state" where
  "respond x = (case fst x of Inl err \<Rightarrow> InternalServerError err | Inr j \<Rightarrow> OK j, snd x)"

fun serve :: "env \<Rightarrow> request \<Rightarrow> state \<Rightarrow> response \<times> state" where
  "serve e GetRoot s = respond (read_root s)"
| "serve e GetPosts s = respond (get_posts e s)"
| "serve e (PostPosts body) s =
     (case validate_post body of
        Inl errs \<Rightarrow> (UnprocessableEntity errs, s)
      | Inr post \<Rightarrow> respond (create_post e post s))"
| "serve e GetStats s = respond (get_stats e s)"

text \<open>
  A run of the service: the requests in the order they are served, each with what it
  finds outside the program. \<open>run\<close> is the state after the last request,
  \<open>responses\<close> are the answers.
\<close>

fun run :: "(env \<times> request) list \<Rightarrow> state \<Rightarrow> state" where
  "run [] s = s"
| "run (x # xs) s = run xs (snd (serve (fst x) (snd x) s))"

fun responses :: "(env \<times> request) list \<Rightarrow> state \<Rightarrow> response list" where
  "responses [] s = []"
| "responses (x # xs) s =
     fst (serve (fst x) (snd x) s) # responses xs (snd (serve (fst x) (snd x) s))"

text \<open>The database before the first start of the service: no table, no connection.\<close>

definition fresh :: state where
  "fresh = \<lparr>posts_table = None, open_conns = 0\<rparr>"

text \<open>
  The rows a state stores, a successful \<^verbatim>\<open>POST /posts\<close> among the requests of a run, and
  the invariant of the sequence: the ids grow in insertion order and stay below the next
  value of the sequence.
\<close>

definition stored :: "state \<Rightarrow> row list" where
  "stored s = (case posts_table s of None \<Rightarrow> [] | Some t \<Rightarrow> rows t)"

fun created :: "request \<Rightarrow> response \<Rightarrow> bool" where
  "created (PostPosts b) (OK j) = True"
| "created _ _ = False"

definition inserted :: "(env \<times> request) list \<Rightarrow> response list \<Rightarrow> nat" where
  "inserted xs resps = length (filter (\<lambda>p. created (snd (fst p)) (snd p)) (zip xs resps))"

definition ids_increasing :: "table \<Rightarrow> bool" where
  "ids_increasing t \<longleftrightarrow>
     sorted_wrt (<) (map col_id (rows t)) \<and> list_all (\<lambda>r. col_id r < seq t) (rows t)"

text \<open>Inputs on which the theorems below are tried.\<close>

definition noon :: datetime where
  "noon = \<lparr>year = 2024, month = 5, day = 17, hour = 12, minute = 0, second = 0, microsecond = 0\<rparr>"

definition later :: datetime where
  "later = \<lparr>year = 2024, month = 5, day = 17, hour = 12, minute = 30, second = 9, microsecond = 250\<rparr>"

definition up :: "datetime \<Rightarrow> env" where
  "up ts = \<lparr>connect_ok = True, now = ts\<rparr>"

definition down :: "datetime \<Rightarrow> env" where
  "down ts = \<lparr>connect_ok = False, now = ts\<rparr>"

definition body :: "pystr \<Rightarrow> pystr \<Rightarrow> json" where
  "body u c = JObj [(ascii ''username'', JStr u), (ascii ''content'', JStr c)]"

definition two_rows :: table where
  "two_rows =
     \<lparr>rows = [\<lparr>col_id = 1, col_username = ascii ''alice'', col_content = ascii ''hello'',
                col_created_at = noon\<rparr>,
              \<lparr>col_id = 2, col_username = ascii ''bob'', col_content = [],
                col_created_at = later\<rparr>],
      seq = 3\<rparr>"

definition two_posts :: state where
  "two_posts = \<lparr>posts_table = Some two_rows, open_conns = 0\<rparr>"

definition started :: state where
  "started = snd (startup (up noon) fresh)"

definition bob_row :: "int \<Rightarrow> row" where
  "bob_row i =
     \<lparr>col_id = i, col_username = ascii ''bob'', col_content = [], col_created_at = later\<rparr>"

definition bob_rows :: "int \<Rightarrow> nat \<Rightarrow> row list" where
  "bob_rows q n = map (\<lambda>i. bob_row (q + int i)) [0..<n]"

definition alice_row :: row where
  "alice_row = \<lparr>col_id = 1, col_username = ascii ''alice'', col_content = ascii ''hello'',
                 col_created_at = noon\<rparr>"

definition fifty_rows :: table where
  "fifty_rows = \<lparr>rows = bob_rows 1 50, seq = 51\<rparr>"

definition alice_first :: state where
  "alice_first =
     \<lparr>posts_table = Some \<lparr>rows = alice_row # bob_rows 2 50, seq = 52\<rparr>, open_conns = 0\<rparr>"

definition fifty_posts :: state where
  "fifty_posts = \<lparr>posts_table = Some fifty_rows, open_conns = 0\<rparr>"

definition carol :: Post where
  "carol = \<lparr>username = ascii ''carol'', content = []\<rparr>"

definition carol_row :: row where
  "carol_row = \<lparr>col_id = 3, col_username = ascii ''carol'', col_content = [],
                 col_created_at = later\<rparr>"

definition three_posts :: state where
  "three_posts =
     \<lparr>posts_table = Some \<lparr>rows = rows two_rows @ [carol_row], seq = 4\<rparr>, open_conns = 0\<rparr>"

definition mixed_run :: "(env \<times> request) list" where
  "mixed_run =
     [(up noon, PostPosts (body (ascii ''alice'') (ascii ''hello''))),
      (down noon, PostPosts (body (ascii ''bob'') [])),
      (up later, PostPosts (JObj [(ascii ''username'', JStr (ascii ''bob''))])),
      (up later, PostPosts (body (ascii ''bob'') [])),
      (up later, GetPosts)]"

definition alice_posted :: state where
  "alice_posted =
     \<lparr>posts_table = Some \<lparr>rows = [\<lparr>col_id = 1, col_username = ascii ''alice'',
        col_content = ascii ''hello'', col_created_at = later\<rparr>], seq = 2\<rparr>,
      open_conns = 0\<rparr>"

section \<open>Connections and queries\<close>

lemma get_db_ok: "connect_ok e \<Longrightarrow> get_db e s = Inr (s\<lparr>open_conns := open_conns s + 1\<rparr>)"
  by (simp add: get_db_def)

lemma get_db_down: "\<not> connect_ok e \<Longrightarrow> get_db e s = Inl OperationalError"
  by (simp add: get_db_def)

text \<open>The same test on integers, whose numerals are evaluated in binary.\<close>

lemma scalar_value_code [code]:
  "scalar_value c \<longleftrightarrow> int c \<le> 1114111 \<and> \<not> (55296 \<le> int c \<and> int c \<le> 57343)"
  by (simp add: scalar_value_def)

lemma adapt_str_ok: "list_all scalar_value v \<Longrightarrow> 0 \<notin> set v \<Longrightarrow> adapt_str v = Inr v"
  by (simp add: adapt_str_def)

lemma adapt_str_cases: "adapt_str v = Inr v \<or> (\<exists>err. adapt_str v = Inl err)"
  by (simp add: adapt_str_def)

lemma insert_post_adapted:
  assumes "adapt_str u = Inr u" and "adapt_str c = Inr c"
  shows "insert_post ts u c d =
     (case d of
        None \<Rightarrow> (Inl UndefinedTable, None)
      | Some t \<Rightarrow> (case insert_values ts u c t of (r, t') \<Rightarrow> (r, Some t')))"
  using assms by (simp add: insert_post_def)

lemma insert_post_refused:
  assumes "adapt_str u \<noteq> Inr u \<or> adapt_str c \<noteq> Inr c"
  shows "\<exists>err. insert_post ts u c d = (Inl err, d)"
  using assms adapt_str_cases [of u] adapt_str_cases [of c]
  by (auto simp: insert_post_def)

lemma order_desc_sorted:
  "sorted_wrt (\<lambda>a b. created_key b \<le> created_key a) (order_by_created_at_desc rs)"
  using sorted_sort_key [of created_key rs]
  by (simp add: order_by_created_at_desc_def sorted_wrt_rev sorted_map)

lemma order_desc_mset: "mset (order_by_created_at_desc rs) = mset rs"
  by (simp add: order_by_created_at_desc_def)

lemma take_50_rest:
  "mset rs - mset (take 50 (order_by_created_at_desc rs)) = mset (drop 50 (order_by_created_at_desc rs))"
proof -
  have "mset (take 50 (order_by_created_at_desc rs)) + mset (drop 50 (order_by_created_at_desc rs)) = mset rs"
    by (simp add: order_desc_mset flip: mset_append)
  then show ?thesis
    by (metis add_diff_cancel_left')
qed

lemma take_50_newest:
  assumes "p \<in> set (take 50 (order_by_created_at_desc rs))"
    and "r \<in> set (drop 50 (order_by_created_at_desc rs))"
  shows "created_key r \<le> created_key p"
proof -
  have "sorted_wrt (\<lambda>a b. created_key b \<le> created_key a)
          (take 50 (order_by_created_at_desc rs) @ drop 50 (order_by_created_at_desc rs))"
    using order_desc_sorted [of rs] by simp
  then show ?thesis
    using assms unfolding sorted_wrt_append by blast
qed

section \<open>Listing posts\<close>

text \<open>
  C1. When the database is reachable and the table exists, \<^verbatim>\<open>GET /posts\<close> returns at
  most 50 posts, sorted by \<^verbatim>\<open>created_at\<close> in descending order, each a dict of
  \<^verbatim>\<open>id\<close>, \<^verbatim>\<open>username\<close>, \<^verbatim>\<open>content\<close> and \<^verbatim>\<open>created_at\<close> as a string. The posts
  returned are rows of the table, and no row left out is newer than a row returned.
\<close>

theorem get_posts_newest_50:
  assumes "connect_ok e" and "posts_table s = Some t"
  shows "\<exists>ps. fst (get_posts e s) =
            Inr (JObj [(ascii ''posts'', JArr (map (\<lambda>r.
              JObj [(ascii ''id'', JInt (col_id r)),
                    (ascii ''username'', JStr (col_username r)),
                    (ascii ''content'', JStr (col_content r)),
                    (ascii ''created_at'', JStr (str_datetime (col_created_at r)))]) ps))])
          \<and> length ps \<le> 50
          \<and> sorted_wrt (\<lambda>a b. dt_key (col_created_at a) \<ge> dt_key (col_created_at b)) ps
          \<and> mset ps \<subseteq># mset (rows t)
          \<and> (\<forall>r \<in># mset (rows t) - mset ps. \<forall>p \<in> set ps.
                dt_key (col_created_at r) \<le> dt_key (col_created_at p))"
proof -
  let ?ps = "take 50 (order_by_created_at_desc (rows t))"
  have res: "fst (get_posts e s) = Inr (JObj [(ascii ''posts'', JArr (map post_dict ?ps))])"
    using assms by (simp add: get_posts_def get_db_ok select_posts_def)
  have pd: "post_dict = (\<lambda>r.
              JObj [(ascii ''id'', JInt (col_id r)),
                    (ascii ''username'', JStr (col_username r)),
                    (ascii ''content'', JStr (col_content r)),
                    (ascii ''created_at'', JStr (str_datetime (col_created_at r)))])"
    by (rule ext) (simp add: post_dict_def)
  have len: "length ?ps \<le> 50" by simp
  have srt: "sorted_wrt (\<lambda>a b. dt_key (col_created_at a) \<ge> dt_key (col_created_at b)) ?ps"
    using sorted_wrt_take [OF order_desc_sorted [of "rows t"], of 50]
    by (simp add: created_key_def)
  have sub: "mset ?ps \<subseteq># mset (rows t)"
    by (metis order_desc_mset mset_subset_eq_add_left mset_append append_take_drop_id)
  have newest: "\<forall>r \<in># mset (rows t) - mset ?ps. \<forall>p \<in> set ?ps.
                dt_key (col_created_at r) \<le> dt_key (col_created_at p)"
    using take_50_newest [of _ "rows t"] by (simp add: take_50_rest created_key_def)
  show ?thesis
    using res len srt sub newest unfolding pd by blast
qed

theorem get_posts_newest_50_witness:
  "connect_ok (up later) \<and> posts_table two_posts = Some two_rows \<and>
   (\<exists>ps. fst (get_posts (up later) two_posts) =
            Inr (JObj [(ascii ''posts'', JArr (map (\<lambda>r.
              JObj [(ascii ''id'', JInt (col_id r)),
                    (ascii ''username'', JStr (col_username r)),
                    (ascii ''content'', JStr (col_content r)),
                    (ascii ''created_at'', JStr (str_datetime (col_created_at r)))]) ps))])
          \<and> length ps \<le> 50
          \<and> sorted_wrt (\<lambda>a b. dt_key (col_created_at a) \<ge> dt_key (col_created_at b)) ps
          \<and> mset ps \<subseteq># mset (rows two_rows)
          \<and> (\<forall>r \<in># mset (rows two_rows) - mset ps. \<forall>p \<in> set ps.
                dt_key (col_created_at r) \<le> dt_key (col_created_at p))) \<and>
   fst (get_posts (up later) two_posts) =
     Inr (JObj [(ascii ''posts'', JArr
       [JObj [(ascii ''id'', JInt 2), (ascii ''username'', JStr (ascii ''bob'')),
              (ascii ''content'', JStr []),
              (ascii ''created_at'', JStr (ascii ''2024-05-17 12:30:09.000250''))],
        JObj [(ascii ''id'', JInt 1), (ascii ''username'', JStr (ascii ''alice'')),
              (ascii ''content'', JStr (ascii ''hello'')),
              (ascii ''created_at'', JStr (ascii ''2024-05-17 12:00:00''))]])])"
proof (intro conjI)
  show c: "connect_ok (up later)" by (simp add: up_def)
  show t: "posts_table two_posts = Some two_rows" by (simp add: two_posts_def)
  show "\<exists>ps. fst (get_posts (up later) two_posts) =
            Inr (JObj [(ascii ''posts'', JArr (map (\<lambda>r.
              JObj [(ascii ''id'', JInt (col_id r)),
                    (ascii ''username'', JStr (col_username r)),
                    (ascii ''content'', JStr (col_content r)),
                    (ascii ''created_at'', JStr (str_datetime (col_created_at r)))]) ps))])
          \<and> length ps \<le> 50
          \<and> sorted_wrt (\<lambda>a b. dt_key (col_created_at a) \<ge> dt_key (col_created_at b)) ps
          \<and> mset ps \<subseteq># mset (rows two_rows)
          \<and> (\<forall>r \<in># mset (rows two_rows) - mset ps. \<forall>p \<in> set ps.
                dt_key (col_created_at r) \<le> dt_key (col_created_at p))"
    by (rule get_posts_newest_50 [OF c t])
  show "fst (get_posts (up later) two_posts) =
     Inr (JObj [(ascii ''posts'', JArr
       [JObj [(ascii ''id'', JInt 2), (ascii ''username'', JStr (ascii ''bob'')),
              (ascii ''content'', JStr []),
              (ascii ''created_at'', JStr (ascii ''2024-05-17 12:30:09.000250''))],
        JObj [(ascii ''id'', JInt 1), (ascii ''username'', JStr (ascii ''alice'')),
              (ascii ''content'', JStr (ascii ''hello'')),
              (ascii ''created_at'', JStr (ascii ''2024-05-17 12:00:00''))]])])"
    by code_simp
qed

section \<open>The root route\<close>

text \<open>
  C9. \<^verbatim>\<open>GET /\<close> answers with the same static message in every state and whatever the
  database does, and leaves the state as it is: it opens no connection and reads nothing.
\<close>

theorem read_root_static:
  "serve e GetRoot s =
     (OK (JObj [(ascii ''message'', JStr ([128051] @ ascii '' DevOps Social API is live!''))]), s)
   \<and> fst (serve e GetRoot s) = fst (serve e' GetRoot s')"
  by (simp add: read_root_def respond_def)

theorem read_root_static_witness:
  "serve (down noon) GetRoot fresh =
     (OK (JObj [(ascii ''message'', JStr ([128051] @ ascii '' DevOps Social API is live!''))]), fresh)
   \<and> fst (serve (down noon) GetRoot fresh) = fst (serve (up later) GetRoot two_posts)"
  by (rule read_root_static [of "down noon" fresh "up later" two_posts])

section \<open>Startup\<close>

lemma startup_ok:
  "connect_ok e \<Longrightarrow>
   startup e s = (Inr (), s\<lparr>posts_table := create_table_if_not_exists (posts_table s)\<rparr>)"
  by (simp add: startup_def get_db_ok conn_close_def)

text \<open>
  C5. With the database reachable, \<^verbatim>\<open>startup\<close> leaves a state whose table exists as it
  is, and \<^verbatim>\<open>startup\<close> after \<^verbatim>\<open>startup\<close> changes nothing: twice is the same as once,
  from any state.
\<close>

theorem startup_idempotent:
  assumes "connect_ok e" and "connect_ok e'"
  shows "(posts_table s \<noteq> None \<longrightarrow> startup e s = (Inr (), s))
       \<and> startup e' (snd (startup e s)) = (Inr (), snd (startup e s))"
proof (cases "posts_table s")
  case None
  with assms show ?thesis
    by (simp add: startup_ok create_table_if_not_exists_def)
next
  case (Some t)
  with assms show ?thesis
    by (simp add: startup_ok create_table_if_not_exists_def)
qed

theorem startup_idempotent_witness:
  "connect_ok (up noon) \<and> connect_ok (up later) \<and> posts_table two_posts \<noteq> None
   \<and> startup (up noon) two_posts = (Inr (), two_posts)
   \<and> startup (up later) (snd (startup (up noon) fresh)) = (Inr (), snd (startup (up noon) fresh))
   \<and> snd (startup (up noon) fresh) = \<lparr>posts_table = Some \<lparr>rows = [], seq = 1\<rparr>, open_conns = 0\<rparr>"
proof -
  have c: "connect_ok (up noon)" and c': "connect_ok (up later)"
    by (simp_all add: up_def)
  have t: "posts_table two_posts \<noteq> None"
    by (simp add: two_posts_def)
  have "snd (startup (up noon) fresh) = \<lparr>posts_table = Some \<lparr>rows = [], seq = 1\<rparr>, open_conns = 0\<rparr>"
    by (simp add: startup_ok c fresh_def create_table_if_not_exists_def)
  then show ?thesis
    using startup_idempotent [OF c c', of two_posts] startup_idempotent [OF c c', of fresh] c c' t
    by simp
qed

section \<open>No update and no delete\<close>

lemma get_posts_frame: "posts_table (snd (get_posts e s)) = posts_table s"
  by (simp add: get_posts_def get_db_def conn_close_def split: sum.splits)

lemma get_stats_frame: "posts_table (snd (get_stats e s)) = posts_table s"
  by (simp add: get_stats_def get_db_def conn_close_def split: sum.splits)

lemma insert_values_rows:
  "rows (snd (insert_values ts u c t)) = rows t \<or>
   (\<exists>r. rows (snd (insert_values ts u c t)) = rows t @ [r])"
  by (simp add: insert_values_def nextval_def split: sum.splits)

lemma insert_post_rows:
  "(d = None \<longrightarrow> snd (insert_post ts u c d) = None) \<and>
   (\<forall>t. d = Some t \<longrightarrow> (\<exists>t'. snd (insert_post ts u c d) = Some t' \<and>
      (rows t' = rows t \<or> (\<exists>r. rows t' = rows t @ [r]))))"
proof (cases "adapt_str u = Inr u \<and> adapt_str c = Inr c")
  case False
  then obtain err where "insert_post ts u c d = (Inl err, d)"
    using insert_post_refused [of u c ts d] by blast
  then show ?thesis by (cases d) auto
next
  case True
  show ?thesis
  proof (cases d)
    case None
    then show ?thesis using True by (simp add: insert_post_adapted)
  next
    case (Some t)
    then show ?thesis
      using insert_values_rows [of ts u c t] True
      by (cases "insert_values ts u c t") (auto simp: insert_post_adapted)
  qed
qed

lemma create_post_table:
  "posts_table (snd (create_post e post s)) =
     (if connect_ok e then snd (insert_post (now e) (username post) (content post) (posts_table s))
      else posts_table s)"
  by (simp add: create_post_def get_db_def conn_close_def split: sum.splits prod.splits)

lemma serve_post_table:
  "posts_table (snd (serve e (PostPosts b) s)) = posts_table s \<or>
   (\<exists>post. posts_table (snd (serve e (PostPosts b) s)) = posts_table (snd (create_post e post s)))"
  by (cases "validate_post b") (auto simp: respond_def)

text \<open>
  C6. No request updates or deletes a stored row: \<^verbatim>\<open>GET /\<close>, \<^verbatim>\<open>GET /posts\<close> and
  \<^verbatim>\<open>GET /stats\<close> leave the table as it is, and after \<^verbatim>\<open>POST /posts\<close> the rows are the
  rows before, in their order, with at most one row appended.
\<close>

theorem service_never_updates_or_deletes:
  "posts_table (snd (serve e GetRoot s)) = posts_table s
   \<and> posts_table (snd (serve e GetPosts s)) = posts_table s
   \<and> posts_table (snd (serve e GetStats s)) = posts_table s
   \<and> (posts_table s = None \<longrightarrow> posts_table (snd (serve e (PostPosts b) s)) = None)
   \<and> (\<forall>t. posts_table s = Some t \<longrightarrow>
        (\<exists>t'. posts_table (snd (serve e (PostPosts b) s)) = Some t' \<and>
              (rows t' = rows t \<or> (\<exists>r. rows t' = rows t @ [r]))))"
proof -
  have post: "(posts_table s = None \<longrightarrow> posts_table (snd (create_post e p s)) = None)
     \<and> (\<forall>t. posts_table s = Some t \<longrightarrow>
        (\<exists>t'. posts_table (snd (create_post e p s)) = Some t' \<and>
              (rows t' = rows t \<or> (\<exists>r. rows t' = rows t @ [r]))))" for p
    using insert_post_rows [of "posts_table s" "now e" "username p" "content p"]
    by (simp add: create_post_table)
  have "posts_table s = None \<longrightarrow> posts_table (snd (serve e (PostPosts b) s)) = None"
    using serve_post_table [of e b s] post by auto
  moreover have "\<forall>t. posts_table s = Some t \<longrightarrow>
        (\<exists>t'. posts_table (snd (serve e (PostPosts b) s)) = Some t' \<and>
              (rows t' = rows t \<or> (\<exists>r. rows t' = rows t @ [r])))"
    using serve_post_table [of e b s] post by metis
  ultimately show ?thesis
    by (simp add: get_posts_frame get_stats_frame read_root_def respond_def)
qed

theorem service_never_updates_or_deletes_witness:
  "posts_table two_posts = Some two_rows
   \<and> posts_table (snd (serve (up later) GetPosts two_posts)) = posts_table two_posts
   \<and> posts_table (snd (serve (up later) GetStats two_posts)) = posts_table two_posts
   \<and> (\<exists>t'. posts_table (snd (serve (up later) (PostPosts (body (ascii ''carol'') [])) two_posts)) = Some t'
          \<and> (rows t' = rows two_rows \<or> (\<exists>r. rows t' = rows two_rows @ [r])))"
proof -
  have t: "posts_table two_posts = Some two_rows"
    by (simp add: two_posts_def)
  show ?thesis
    using service_never_updates_or_deletes [of "up later" two_posts "body (ascii ''carol'') []"] t
    by simp
qed

section \<open>Validation\<close>

lemma str_field_missing: "dict_get kvs k = None \<Longrightarrow> str_field kvs k = Inl [Missing k]"
  by (simp add: str_field_def)

lemma str_field_wrong:
  "dict_get kvs k = Some v \<Longrightarrow> \<forall>x. v \<noteq> JStr x \<Longrightarrow> str_field kvs k = Inl [StringType k]"
  by (cases v) (simp_all add: str_field_def)

lemma validate_post_rejects:
  assumes "str_field kvs (ascii ''username'') = Inl eu \<or> str_field kvs (ascii ''content'') = Inl ec"
  shows "\<exists>errs. validate_post (JObj kvs) = Inl errs \<and>
     (\<forall>eu. str_field kvs (ascii ''username'') = Inl eu \<longrightarrow> set eu \<subseteq> set errs) \<and>
     (\<forall>ec. str_field kvs (ascii ''content'') = Inl ec \<longrightarrow> set ec \<subseteq> set errs)"
  using assms
  by (cases "str_field kvs (ascii ''username'')"; cases "str_field kvs (ascii ''content'')")
     (auto simp: validate_post_def)

text \<open>
  C3. A body of \<^verbatim>\<open>POST /posts\<close> that lacks \<^verbatim>\<open>username\<close> or \<^verbatim>\<open>content\<close>, or gives
  one of them a value that is not a string, is answered with the validation errors
  (status 422), which name the field; the state is the state before: no row is inserted
  and no connection is opened, whether the database is reachable or not.
\<close>

theorem create_post_rejects_invalid_body:
  assumes "dict_get kvs (ascii ''username'') = None
         \<or> dict_get kvs (ascii ''content'') = None
         \<or> (\<exists>v. dict_get kvs (ascii ''username'') = Some v \<and> (\<forall>x. v \<noteq> JStr x))
         \<or> (\<exists>v. dict_get kvs (ascii ''content'') = Some v \<and> (\<forall>x. v \<noteq> JStr x))"
  shows "\<exists>errs. serve e (PostPosts (JObj kvs)) s = (UnprocessableEntity errs, s)
       \<and> (dict_get kvs (ascii ''username'') = None \<longrightarrow> Missing (ascii ''username'') \<in> set errs)
       \<and> (dict_get kvs (ascii ''content'') = None \<longrightarrow> Missing (ascii ''content'') \<in> set errs)
       \<and> ((\<exists>v. dict_get kvs (ascii ''username'') = Some v \<and> (\<forall>x. v \<noteq> JStr x))
            \<longrightarrow> StringType (ascii ''username'') \<in> set errs)
       \<and> ((\<exists>v. dict_get kvs (ascii ''content'') = Some v \<and> (\<forall>x. v \<noteq> JStr x))
            \<longrightarrow> StringType (ascii ''content'') \<in> set errs)"
proof -
  from assms have "(\<exists>eu. str_field kvs (ascii ''username'') = Inl eu)
      \<or> (\<exists>ec. str_field kvs (ascii ''content'') = Inl ec)"
    using str_field_missing str_field_wrong by metis
  then obtain errs where v: "validate_post (JObj kvs) = Inl errs"
     and u: "\<forall>eu. str_field kvs (ascii ''username'') = Inl eu \<longrightarrow> set eu \<subseteq> set errs"
     and c: "\<forall>ec. str_field kvs (ascii ''content'') = Inl ec \<longrightarrow> set ec \<subseteq> set errs"
    using validate_post_rejects by blast
  have a1: "serve e (PostPosts (JObj kvs)) s = (UnprocessableEntity errs, s)"
    using v by simp
  have a2: "dict_get kvs (ascii ''username'') = None \<longrightarrow> Missing (ascii ''username'') \<in> set errs"
    using u str_field_missing [of kvs "ascii ''username''"] by auto
  have a3: "dict_get kvs (ascii ''content'') = None \<longrightarrow> Missing (ascii ''content'') \<in> set errs"
    using c str_field_missing [of kvs "ascii ''content''"] by auto
  have a4: "(\<exists>v. dict_get kvs (ascii ''username'') = Some v \<and> (\<forall>x. v \<noteq> JStr x))
            \<longrightarrow> StringType (ascii ''username'') \<in> set errs"
    using u str_field_wrong [of kvs "ascii ''username''"] by auto
  have a5: "(\<exists>v. dict_get kvs (ascii ''content'') = Some v \<and> (\<forall>x. v \<noteq> JStr x))
            \<longrightarrow> StringType (ascii ''content'') \<in> set errs"
    using c str_field_wrong [of kvs "ascii ''content''"] by auto
  show ?thesis
    by (rule exI [of _ errs]) (intro conjI a1 a2 a3 a4 a5)
qed

theorem create_post_rejects_invalid_body_witness:
  "dict_get [(ascii ''username'', JInt 5)] (ascii ''username'') = Some (JInt 5)
   \<and> dict_get [(ascii ''username'', JInt 5)] (ascii ''content'') = None
   \<and> (\<exists>errs. serve (down noon) (PostPosts (JObj [(ascii ''username'', JInt 5)])) two_posts
                = (UnprocessableEntity errs, two_posts)
            \<and> StringType (ascii ''username'') \<in> set errs
            \<and> Missing (ascii ''content'') \<in> set errs)"
proof -
  have u: "dict_get [(ascii ''username'', JInt 5)] (ascii ''username'') = Some (JInt 5)"
    by (simp add: dict_get_def)
  have c: "dict_get [(ascii ''username'', JInt 5)] (ascii ''content'') = None"
    by (simp add: dict_get_def ascii_def)
  have w: "\<forall>x. JInt 5 \<noteq> JStr x"
    by simp
  show ?thesis
    using create_post_rejects_invalid_body
            [of "[(ascii ''username'', JInt 5)]" "down noon" two_posts] u c w
    by auto
qed

section \<open>Creating posts\<close>

lemma started_eq: "started = \<lparr>posts_table = Some \<lparr>rows = [], seq = 1\<rparr>, open_conns = 0\<rparr>"
  by code_simp

lemma body_valid: "validate_post (body u c) = Inr \<lparr>username = u, content = c\<rparr>"
proof -
  have "dict_get [(ascii ''username'', JStr u), (ascii ''content'', JStr c)] (ascii ''username'')
      = Some (JStr u)"
    by (simp add: dict_get_def ascii_def)
  moreover have "dict_get [(ascii ''username'', JStr u), (ascii ''content'', JStr c)] (ascii ''content'')
      = Some (JStr c)"
    by (simp add: dict_get_def)
  ultimately show ?thesis
    by (simp add: validate_post_def body_def str_field_def)
qed

lemma order_desc_set: "set (order_by_created_at_desc rs) = set rs"
  by (simp add: order_by_created_at_desc_def)

lemma order_desc_length: "length (order_by_created_at_desc rs) = length rs"
  by (simp add: order_by_created_at_desc_def)

text \<open>
  A row that is appended is listed when fewer than 50 rows are as new as it is or newer,
  however the rows of equal \<^verbatim>\<open>created_at\<close> are ordered.
\<close>

lemma newest_in_take:
  assumes few: "length (filter (\<lambda>x. created_key r \<le> created_key x) rs) < 50"
  shows "r \<in> set (take 50 (order_by_created_at_desc (rs @ [r])))"
proof (rule ccontr)
  let ?ys = "order_by_created_at_desc (rs @ [r])"
  let ?P = "\<lambda>x. created_key r \<le> created_key x"
  assume out: "r \<notin> set (take 50 ?ys)"
  have "mset (take 50 ?ys) + mset (drop 50 ?ys) = mset ?ys"
    by (simp flip: mset_append)
  then have split: "mset (take 50 ?ys) + mset (drop 50 ?ys) = mset rs + {#r#}"
    by (simp add: order_desc_mset)
  have "r \<in># mset (take 50 ?ys) + mset (drop 50 ?ys)"
    unfolding split by simp
  with out have r_drop: "r \<in> set (drop 50 ?ys)"
    by simp
  then have all: "\<forall>p \<in> set (take 50 ?ys). ?P p"
    using take_50_newest by blast
  from r_drop have "drop 50 ?ys \<noteq> []" by auto
  then have len: "length (take 50 ?ys) = 50" by simp
  from r_drop obtain M where M: "mset (drop 50 ?ys) = M + {#r#}"
    by (metis insert_DiffM2 set_mset_mset)
  have "mset (take 50 ?ys) + M = mset rs"
    using split unfolding M by simp
  then have sub: "mset (take 50 ?ys) \<subseteq># mset rs"
    by (metis mset_subset_eq_add_left)
  have "filter ?P (take 50 ?ys) = take 50 ?ys"
    using all by (simp add: filter_True)
  then have "50 = size (filter_mset ?P (mset (take 50 ?ys)))"
    using len by (metis mset_filter size_mset)
  also have "\<dots> \<le> size (filter_mset ?P (mset rs))"
    using sub by (simp add: multiset_filter_mono size_mset_mono)
  also have "\<dots> = length (filter ?P rs)"
    by (metis mset_filter size_mset)
  finally show False using few by simp
qed

text \<open>A row older than 50 rows of the table is not listed.\<close>

lemma insort_after_least:
  "k r < k x \<Longrightarrow> insort_key k x (r # zs) = r # insort_key k x zs"
  using not_le [of "k x" "k r"] by simp

lemma foldr_insort_least:
  "\<forall>x \<in> set rs. k r < k x \<Longrightarrow>
   foldr (insort_key k) rs (r # zs) = r # foldr (insort_key k) rs zs"
  by (induction rs) (simp_all add: insort_after_least del: insort_key.simps)

lemma sort_key_least_last:
  assumes "\<forall>x \<in> set rs. k r < k x"
  shows "sort_key k (rs @ [r]) = r # sort_key k rs"
  using foldr_insort_least [OF assms, of "[]"] by (simp add: sort_key_def)

lemma older_not_listed:
  assumes old: "\<forall>x \<in> set rs. created_key r < created_key x" and many: "50 \<le> length rs"
  shows "take 50 (order_by_created_at_desc (rs @ [r])) = take 50 (order_by_created_at_desc rs)"
  using many
  by (simp add: order_by_created_at_desc_def sort_key_least_last [OF old])

text \<open>The insert succeeds on a value that fits and a sequence that is not exhausted.\<close>

lemma varchar_fits:
  "list_all (\<lambda>c. c = 32) (drop n v) \<Longrightarrow> varchar n v = Inr (take n v)"
  by (simp add: varchar_def)

lemma insert_values_ok:
  assumes "list_all (\<lambda>c. c = 32) (drop 100 u)" and "seq t \<le> 2147483647"
    and "list_all (\<lambda>r. col_id r < seq t) (rows t)"
  shows "insert_values ts u c t =
     (Inr (seq t), \<lparr>rows = rows t @ [\<lparr>col_id = seq t, col_username = take 100 u,
                       col_content = c, col_created_at = ts\<rparr>], seq = seq t + 1\<rparr>)"
proof -
  have "seq t \<notin> set (map col_id (rows t))"
    using assms(3) by (auto simp: list_all_iff)
  then show ?thesis
    using assms(1,2) by (simp add: insert_values_def varchar_fits nextval_def)
qed

lemma ids_increasing_append:
  assumes "ids_increasing t"
  shows "ids_increasing \<lparr>rows = rows t @ [\<lparr>col_id = seq t, col_username = u,
                       col_content = c, col_created_at = ts\<rparr>], seq = seq t + 1\<rparr>"
  using assms
  by (auto simp: ids_increasing_def sorted_wrt_append list_all_iff)

text \<open>The invariant of the ids holds in every state of a run.\<close>

lemma insert_values_inv:
  assumes "ids_increasing t"
  shows "ids_increasing (snd (insert_values ts u c t))"
proof -
  have "seq t \<notin> set (map col_id (rows t))"
    using assms by (auto simp: ids_increasing_def list_all_iff)
  then show ?thesis
    using assms
    by (auto simp: insert_values_def nextval_def ids_increasing_def sorted_wrt_append list_all_iff
        split: sum.splits)
qed

lemma insert_post_inv:
  assumes "ids_increasing t"
  shows "\<exists>t'. snd (insert_post ts u c (Some t)) = Some t' \<and> ids_increasing t'"
proof (cases "adapt_str u = Inr u \<and> adapt_str c = Inr c")
  case False
  then obtain err where "insert_post ts u c (Some t) = (Inl err, Some t)"
    using insert_post_refused [of u c ts "Some t"] by blast
  then show ?thesis using assms by simp
next
  case True
  then show ?thesis
    using insert_values_inv [OF assms, of ts u c]
    by (cases "insert_values ts u c t") (auto simp: insert_post_adapted)
qed

lemma serve_inv:
  assumes "posts_table s = Some t" and "ids_increasing t"
  shows "\<exists>t'. posts_table (snd (serve e r s)) = Some t' \<and> ids_increasing t'"
proof (cases r)
  case GetRoot
  then show ?thesis using assms by (simp add: read_root_def respond_def)
next
  case GetPosts
  then show ?thesis using assms get_posts_frame [of e s] by (simp add: respond_def)
next
  case GetStats
  then show ?thesis using assms get_stats_frame [of e s] by (simp add: respond_def)
next
  case (PostPosts b)
  show ?thesis
  proof (cases "validate_post b")
    case (Inl errs)
    then show ?thesis using assms PostPosts by simp
  next
    case (Inr post)
    then show ?thesis
      using insert_post_inv [OF assms(2), of "now e" "username post" "content post"] assms PostPosts
      by (simp add: respond_def create_post_table)
  qed
qed

lemma run_inv:
  assumes "posts_table s = Some t" and "ids_increasing t"
  shows "\<exists>t'. posts_table (run xs s) = Some t' \<and> ids_increasing t'"
  using assms
proof (induction xs arbitrary: s t)
  case Nil
  then show ?case by simp
next
  case (Cons x xs)
  from serve_inv [OF Cons.prems, of "fst x" "snd x"] obtain t1
    where "posts_table (snd (serve (fst x) (snd x) s)) = Some t1" and "ids_increasing t1"
    by blast
  from Cons.IH [OF this] show ?case by simp
qed

lemma reachable_ids_increasing:
  assumes "connect_ok e0" and "posts_table (run xs (snd (startup e0 fresh))) = Some t"
  shows "ids_increasing t"
proof -
  have st: "posts_table (snd (startup e0 fresh)) = Some \<lparr>rows = [], seq = 1\<rparr>"
    using assms(1) by (simp add: startup_ok fresh_def create_table_if_not_exists_def)
  have "ids_increasing \<lparr>rows = [], seq = 1\<rparr>"
    by (simp add: ids_increasing_def)
  from run_inv [OF st this, of xs] show ?thesis
    using assms(2) by simp
qed

text \<open>
  C2, as amended. In every state that the service reaches from a fresh database the ids
  grow in insertion order and lie below the next value of the sequence. In such a state,
  with the database reachable, the sequence not beyond 2147483647, no lone surrogate and
  no NUL character in \<^verbatim>\<open>username\<close> and \<^verbatim>\<open>content\<close>, and nothing but spaces after
  the first 100 characters of \<^verbatim>\<open>username\<close>, \<^verbatim>\<open>create_post\<close> appends exactly one row, with \<^verbatim>\<open>username\<close> cut
  to 100 characters, and returns its id, which is greater than every stored id. A listing
  that follows includes the new post when fewer than 50 stored rows have a
  \<^verbatim>\<open>created_at\<close> at or after the new row's.
\<close>

theorem create_post_appends_row_with_new_id:
  assumes up: "connect_ok e" and tab: "posts_table s = Some t"
    and inv: "ids_increasing t" and lim: "seq t \<le> 2147483647"
    and enc: "list_all scalar_value (username post)" "list_all scalar_value (content post)"
    and nul: "0 \<notin> set (username post)" "0 \<notin> set (content post)"
    and fit: "list_all (\<lambda>c. c = 32) (drop 100 (username post))"
    and new: "new = \<lparr>col_id = seq t, col_username = take 100 (username post),
                     col_content = content post, col_created_at = now e\<rparr>"
    and s': "s' = s\<lparr>posts_table := Some \<lparr>rows = rows t @ [new], seq = seq t + 1\<rparr>\<rparr>"
  shows "create_post e post s =
           (Inr (JObj [(ascii ''id'', JInt (seq t)),
                       (ascii ''message'', JStr (ascii ''Post created!''))]), s')
       \<and> list_all (\<lambda>r. col_id r < seq t) (rows t)
       \<and> ids_increasing \<lparr>rows = rows t @ [new], seq = seq t + 1\<rparr>
       \<and> (connect_ok e' \<and>
            length (filter (\<lambda>r. dt_key (now e) \<le> dt_key (col_created_at r)) (rows t)) < 50
          \<longrightarrow> (\<exists>ps. fst (get_posts e' s') = Inr (JObj [(ascii ''posts'', JArr ps)])
                    \<and> post_dict new \<in> set ps))
       \<and> (connect_ok e0 \<and> posts_table (run xs (snd (startup e0 fresh))) = Some t0
          \<longrightarrow> ids_increasing t0)"
proof -
  have below: "list_all (\<lambda>r. col_id r < seq t) (rows t)"
    using inv by (simp add: ids_increasing_def)
  have ins: "insert_post (now e) (username post) (content post) (Some t) =
      (Inr (seq t), Some \<lparr>rows = rows t @ [new], seq = seq t + 1\<rparr>)"
    by (simp add: insert_post_adapted [OF adapt_str_ok [OF enc(1) nul(1)] adapt_str_ok [OF enc(2) nul(2)]]
        insert_values_ok [OF fit lim below] new)
  have res: "create_post e post s =
           (Inr (JObj [(ascii ''id'', JInt (seq t)),
                       (ascii ''message'', JStr (ascii ''Post created!''))]), s')"
    using up tab ins by (simp add: create_post_def get_db_ok conn_close_def s')
  have inv': "ids_increasing \<lparr>rows = rows t @ [new], seq = seq t + 1\<rparr>"
    unfolding new by (rule ids_increasing_append [OF inv])
  have listing: "\<exists>ps. fst (get_posts e' s') = Inr (JObj [(ascii ''posts'', JArr ps)])
                    \<and> post_dict new \<in> set ps"
    if c: "connect_ok e'"
      and few: "length (filter (\<lambda>r. dt_key (now e) \<le> dt_key (col_created_at r)) (rows t)) < 50"
  proof -
    have k: "col_created_at new = now e"
      by (simp add: new)
    have "new \<in> set (take 50 (order_by_created_at_desc (rows t @ [new])))"
      using few by (intro newest_in_take) (simp add: k created_key_def)
    then have "post_dict new
        \<in> set (map post_dict (take 50 (order_by_created_at_desc (rows t @ [new]))))"
      by (simp del: set_take_subset)
    moreover have "fst (get_posts e' s') =
        Inr (JObj [(ascii ''posts'',
          JArr (map post_dict (take 50 (order_by_created_at_desc (rows t @ [new])))))])"
      using c by (simp add: get_posts_def get_db_ok select_posts_def s')
    ultimately show ?thesis by blast
  qed
  show ?thesis
    using res below inv' listing reachable_ids_increasing by blast
qed

theorem create_post_appends_row_with_new_id_witness:
  "connect_ok (up later) \<and> posts_table two_posts = Some two_rows
   \<and> ids_increasing two_rows \<and> seq two_rows \<le> 2147483647
   \<and> list_all scalar_value (username carol) \<and> list_all scalar_value (content carol)
   \<and> 0 \<notin> set (username carol) \<and> 0 \<notin> set (content carol)
   \<and> list_all (\<lambda>c. c = 32) (drop 100 (username carol))
   \<and> create_post (up later) carol two_posts =
        (Inr (JObj [(ascii ''id'', JInt (seq two_rows)),
                    (ascii ''message'', JStr (ascii ''Post created!''))]), three_posts)
   \<and> seq two_rows = 3
   \<and> list_all (\<lambda>r. col_id r < seq two_rows) (rows two_rows)
   \<and> (\<exists>ps. fst (get_posts (up noon) three_posts) = Inr (JObj [(ascii ''posts'', JArr ps)])
           \<and> post_dict carol_row \<in> set ps)"
proof -
  have h1: "connect_ok (up later)" and h1': "connect_ok (up noon)"
    by (simp_all add: up_def)
  have h2: "posts_table two_posts = Some two_rows"
    by (simp add: two_posts_def)
  have h3: "ids_increasing two_rows"
    by (simp add: ids_increasing_def two_rows_def)
  have h4: "seq two_rows \<le> 2147483647" and h4': "seq two_rows = 3"
    by (simp_all add: two_rows_def)
  have g5: "list_all scalar_value (username carol)" and g6: "list_all scalar_value (content carol)"
    by (simp_all add: carol_def ascii_def scalar_value_def)
  have h5: "0 \<notin> set (username carol)" and h6: "0 \<notin> set (content carol)"
    by (simp_all add: carol_def ascii_def)
  have h7: "list_all (\<lambda>c. c = 32) (drop 100 (username carol))"
    by (simp add: carol_def ascii_def)
  have h8: "carol_row = \<lparr>col_id = seq two_rows, col_username = take 100 (username carol),
                     col_content = content carol, col_created_at = now (up later)\<rparr>"
    by (simp add: carol_row_def carol_def two_rows_def up_def ascii_def)
  have h9: "three_posts =
      two_posts\<lparr>posts_table := Some \<lparr>rows = rows two_rows @ [carol_row], seq = seq two_rows + 1\<rparr>\<rparr>"
    by (simp add: three_posts_def two_posts_def two_rows_def)
  have few: "length (filter (\<lambda>r. dt_key (now (up later)) \<le> dt_key (col_created_at r))
      (rows two_rows)) < 50"
    by (rule le_less_trans [OF length_filter_le]) (simp add: two_rows_def)
  note r = create_post_appends_row_with_new_id [OF h1 h2 h3 h4 g5 g6 h5 h6 h7 h8 h9, of "up noon"]
  from r have r1: "create_post (up later) carol two_posts =
        (Inr (JObj [(ascii ''id'', JInt (seq two_rows)),
                    (ascii ''message'', JStr (ascii ''Post created!''))]), three_posts)"
    by (rule conjunct1)
  from r have r2: "list_all (\<lambda>r. col_id r < seq two_rows) (rows two_rows)"
    by blast
  from r h1' few have r3: "\<exists>ps. fst (get_posts (up noon) three_posts)
           = Inr (JObj [(ascii ''posts'', JArr ps)]) \<and> post_dict carol_row \<in> set ps"
    by blast
  show ?thesis
    by (intro conjI h1 h2 h3 h4 g5 g6 h5 h6 h7 r1 h4' r2 r3)
qed

lemma noon_before_later: "dt_key noon < dt_key later"
  by (simp add: dt_key_def noon_def later_def)

lemma bob_rows_Suc: "bob_rows q (Suc n) = bob_row q # bob_rows (q + 1) n"
  by (simp add: bob_rows_def map_upt_Suc ac_simps del: upt_Suc)

lemma bob_rows_props:
  "\<forall>x \<in> set (bob_rows q n). col_created_at x = later \<and> q \<le> col_id x \<and> col_id x < q + int n"
  by (auto simp: bob_rows_def bob_row_def)

lemma bob_rows_length: "length (bob_rows q n) = n"
  by (simp add: bob_rows_def)

lemma bob_step:
  assumes "q \<le> 2147483647" and "list_all (\<lambda>r. col_id r < q) rs"
  shows "serve (up later) (PostPosts (body (ascii ''bob'') []))
           \<lparr>posts_table = Some \<lparr>rows = rs, seq = q\<rparr>, open_conns = 0\<rparr>
    = (OK (JObj [(ascii ''id'', JInt q), (ascii ''message'', JStr (ascii ''Post created!''))]),
       \<lparr>posts_table = Some \<lparr>rows = rs @ [bob_row q], seq = q + 1\<rparr>, open_conns = 0\<rparr>)"
proof -
  have fit: "list_all (\<lambda>c. c = 32) (drop 100 (ascii ''bob''))"
    by code_simp
  have cut: "take 100 (ascii ''bob'') = ascii ''bob''"
    by code_simp
  have ad: "adapt_str (ascii ''bob'') = Inr (ascii ''bob'')" "adapt_str [] = Inr []"
    by code_simp+
  have "insert_values later (ascii ''bob'') [] \<lparr>rows = rs, seq = q\<rparr>
      = (Inr q, \<lparr>rows = rs @ [bob_row q], seq = q + 1\<rparr>)"
    using insert_values_ok [of "ascii ''bob''" "\<lparr>rows = rs, seq = q\<rparr>" later "[]"] fit assms
    by (simp add: cut bob_row_def)
  then show ?thesis
    by (simp add: body_valid respond_def create_post_def get_db_def up_def
        insert_post_adapted [OF ad] conn_close_def)
qed

lemma bob_run:
  assumes "q + int n \<le> 2147483648" and "list_all (\<lambda>r. col_id r < q) rs"
  shows "run (replicate n (up later, PostPosts (body (ascii ''bob'') [])))
           \<lparr>posts_table = Some \<lparr>rows = rs, seq = q\<rparr>, open_conns = 0\<rparr>
    = \<lparr>posts_table = Some \<lparr>rows = rs @ bob_rows q n, seq = q + int n\<rparr>, open_conns = 0\<rparr>"
  using assms
proof (induction n arbitrary: q rs)
  case 0
  then show ?case by (simp add: bob_rows_def)
next
  case (Suc n)
  have q: "q \<le> 2147483647" using Suc.prems(1) by simp
  have below: "list_all (\<lambda>r. col_id r < q + 1) (rs @ [bob_row q])"
    using Suc.prems(2) by (auto simp: list_all_iff bob_row_def)
  have "q + 1 + int n \<le> 2147483648" using Suc.prems(1) by simp
  from Suc.IH [OF this below] bob_step [OF q Suc.prems(2)]
  show ?case by (simp add: bob_rows_Suc add.assoc)
qed

lemma fifty_posts_reached:
  "run (replicate 50 (up later, PostPosts (body (ascii ''bob'') []))) started = fifty_posts"
  using bob_run [of 1 50 "[]"] by (simp add: started_eq fifty_posts_def fifty_rows_def)

lemma fifty_posts_create:
  "serve (up noon) (PostPosts (body (ascii ''alice'') (ascii ''hello''))) fifty_posts =
     (OK (JObj [(ascii ''id'', JInt 51), (ascii ''message'', JStr (ascii ''Post created!''))]),
      \<lparr>posts_table = Some \<lparr>rows = bob_rows 1 50 @
          [\<lparr>col_id = 51, col_username = ascii ''alice'', col_content = ascii ''hello'',
            col_created_at = noon\<rparr>], seq = 52\<rparr>,
       open_conns = 0\<rparr>)"
proof -
  have fresh_id: "51 \<notin> set (map col_id (bob_rows 1 50))"
    using bob_rows_props [of 1 50] by auto
  have vc: "varchar 100 (ascii ''alice'') = Inr (ascii ''alice'')"
    by code_simp
  have ad: "adapt_str (ascii ''alice'') = Inr (ascii ''alice'')"
    "adapt_str (ascii ''hello'') = Inr (ascii ''hello'')"
    by code_simp+
  have "insert_values noon (ascii ''alice'') (ascii ''hello'') fifty_rows =
      (Inr 51, \<lparr>rows = bob_rows 1 50 @
          [\<lparr>col_id = 51, col_username = ascii ''alice'', col_content = ascii ''hello'',
            col_created_at = noon\<rparr>], seq = 52\<rparr>)"
    using fresh_id by (simp add: insert_values_def vc nextval_def fifty_rows_def)
  then show ?thesis
    by (simp add: body_valid respond_def create_post_def get_db_def up_def fifty_posts_def
        insert_post_adapted [OF ad] conn_close_def)
qed

lemma fifty_posts_listing:
  "\<exists>ps. fst (serve (up later) GetPosts
            (snd (serve (up noon) (PostPosts (body (ascii ''alice'') (ascii ''hello''))) fifty_posts)))
         = OK (JObj [(ascii ''posts'', JArr (map post_dict ps))])
       \<and> length ps = 50 \<and> 51 \<notin> set (map col_id ps)"
proof -
  let ?new = "\<lparr>col_id = 51, col_username = ascii ''alice'', col_content = ascii ''hello'',
            col_created_at = noon\<rparr>"
  let ?ps = "take 50 (order_by_created_at_desc (bob_rows 1 50))"
  have old: "\<forall>x \<in> set (bob_rows 1 50). created_key ?new < created_key x"
    using bob_rows_props [of 1 50] noon_before_later by (simp add: created_key_def)
  have cut: "take 50 (order_by_created_at_desc (bob_rows 1 50 @ [?new])) = ?ps"
    by (rule older_not_listed [OF old]) (simp add: bob_rows_length)
  have "fst (serve (up later) GetPosts
            (snd (serve (up noon) (PostPosts (body (ascii ''alice'') (ascii ''hello''))) fifty_posts)))
         = OK (JObj [(ascii ''posts'', JArr (map post_dict ?ps))])"
    unfolding fifty_posts_create
    by (simp add: respond_def get_posts_def get_db_def up_def select_posts_def cut)
  moreover have "length ?ps = 50"
    by (simp add: order_desc_length bob_rows_length)
  moreover have "51 \<notin> set (map col_id ?ps)"
  proof
    assume "51 \<in> set (map col_id ?ps)"
    then obtain x where "x \<in> set ?ps" and "col_id x = 51" by auto
    then have "x \<in> set (bob_rows 1 50)"
      using set_take_subset [of 50 "order_by_created_at_desc (bob_rows 1 50)"]
      by (auto simp: order_desc_set)
    with \<open>col_id x = 51\<close> show False
      using bob_rows_props [of 1 50] by auto
  qed
  ultimately show ?thesis by blast
qed

text \<open>The oldest row is not listed either once 50 newer rows are stored.\<close>

lemma insort_least_first:
  "\<forall>y \<in> set ys. k r < k y \<Longrightarrow> insort_key k r ys = r # ys"
  by (cases ys) (simp_all add: less_imp_le)

lemma oldest_not_listed:
  assumes old: "\<forall>x \<in> set rs. created_key r < created_key x" and many: "50 \<le> length rs"
  shows "take 50 (order_by_created_at_desc (r # rs)) = take 50 (order_by_created_at_desc rs)"
proof -
  have "\<forall>y \<in> set (sort_key created_key rs). created_key r < created_key y"
    using old by simp
  from insort_least_first [OF this]
  have "sort_key created_key (r # rs) = r # sort_key created_key rs"
    by (simp add: sort_key_def)
  then show ?thesis
    using many by (simp add: order_by_created_at_desc_def)
qed

lemma alice_first_reached:
  "run ((up noon, PostPosts (body (ascii ''alice'') (ascii ''hello'')))
         # replicate 50 (up later, PostPosts (body (ascii ''bob'') []))) started = alice_first"
proof -
  have "serve (up noon) (PostPosts (body (ascii ''alice'') (ascii ''hello''))) started
     = (OK (JObj [(ascii ''id'', JInt 1), (ascii ''message'', JStr (ascii ''Post created!''))]),
        \<lparr>posts_table = Some \<lparr>rows = [alice_row], seq = 2\<rparr>, open_conns = 0\<rparr>)"
    by code_simp
  moreover have "run (replicate 50 (up later, PostPosts (body (ascii ''bob'') [])))
           \<lparr>posts_table = Some \<lparr>rows = [alice_row], seq = 2\<rparr>, open_conns = 0\<rparr>
    = \<lparr>posts_table = Some \<lparr>rows = [alice_row] @ bob_rows 2 50, seq = 2 + int 50\<rparr>, open_conns = 0\<rparr>"
    by (rule bob_run) (simp_all add: alice_row_def)
  ultimately show ?thesis
    by (simp add: alice_first_def)
qed

lemma alice_first_listing:
  "\<exists>ps. fst (serve (up later) GetPosts alice_first)
         = OK (JObj [(ascii ''posts'', JArr (map post_dict ps))])
       \<and> length ps = 50 \<and> 1 \<notin> set (map col_id ps)"
proof -
  let ?ps = "take 50 (order_by_created_at_desc (bob_rows 2 50))"
  have old: "\<forall>x \<in> set (bob_rows 2 50). created_key alice_row < created_key x"
    using bob_rows_props [of 2 50] noon_before_later by (simp add: created_key_def alice_row_def)
  have cut: "take 50 (order_by_created_at_desc (alice_row # bob_rows 2 50)) = ?ps"
    by (rule oldest_not_listed [OF old]) (simp add: bob_rows_length)
  have "fst (serve (up later) GetPosts alice_first)
         = OK (JObj [(ascii ''posts'', JArr (map post_dict ?ps))])"
    by (simp add: respond_def get_posts_def get_db_def up_def select_posts_def cut alice_first_def)
  moreover have "length ?ps = 50"
    by (simp add: order_desc_length bob_rows_length)
  moreover have "1 \<notin> set (map col_id ?ps)"
  proof
    assume "1 \<in> set (map col_id ?ps)"
    then obtain x where "x \<in> set ?ps" and "col_id x = 1" by auto
    then have "x \<in> set (bob_rows 2 50)"
      using set_take_subset [of 50 "order_by_created_at_desc (bob_rows 2 50)"]
      by (auto simp: order_desc_set)
    with \<open>col_id x = 1\<close> show False
      using bob_rows_props [of 2 50] by auto
  qed
  ultimately show ?thesis by blast
qed

text \<open>
  C2 as stated fails. A username of 101 letters is a valid input, but the insert is
  refused and no row is stored; so is a username with a NUL character or with a lone
  surrogate. After 50 posts
  stamped \<open>later\<close>, a post that the database stamps \<open>noon\<close> (its clock was set back) gets
  id 51 and is stored, but the listing that follows holds 50 other posts. And the post
  with id 1, stamped \<open>noon\<close>, is in no listing any more after 50 posts stamped \<open>later\<close>
  have followed it.
\<close>

theorem create_post_counterexample:
  "fst (serve (up noon) (PostPosts (body (replicate 101 97) (ascii ''hello''))) started) =
       InternalServerError StringDataRightTruncation
   \<and> stored (snd (serve (up noon) (PostPosts (body (replicate 101 97) (ascii ''hello''))) started)) = []
   \<and> fst (serve (up noon) (PostPosts (body [0] (ascii ''hello''))) started) =
       InternalServerError ValueError
   \<and> stored (snd (serve (up noon) (PostPosts (body [0] (ascii ''hello''))) started)) = []
   \<and> fst (serve (up noon) (PostPosts (body [55296] (ascii ''hello''))) started) =
       InternalServerError UnicodeEncodeError
   \<and> stored (snd (serve (up noon) (PostPosts (body [55296] (ascii ''hello''))) started)) = []
   \<and> run (replicate 50 (up later, PostPosts (body (ascii ''bob'') []))) started = fifty_posts
   \<and> fst (serve (up noon) (PostPosts (body (ascii ''alice'') (ascii ''hello''))) fifty_posts) =
       OK (JObj [(ascii ''id'', JInt 51), (ascii ''message'', JStr (ascii ''Post created!''))])
   \<and> (\<exists>ps. fst (serve (up later) GetPosts
            (snd (serve (up noon) (PostPosts (body (ascii ''alice'') (ascii ''hello''))) fifty_posts)))
         = OK (JObj [(ascii ''posts'', JArr (map post_dict ps))])
       \<and> length ps = 50 \<and> 51 \<notin> set (map col_id ps))
   \<and> run ((up noon, PostPosts (body (ascii ''alice'') (ascii ''hello'')))
         # replicate 50 (up later, PostPosts (body (ascii ''bob'') []))) started = alice_first
   \<and> (\<exists>ps. fst (serve (up later) GetPosts alice_first)
         = OK (JObj [(ascii ''posts'', JArr (map post_dict ps))])
       \<and> length ps = 50 \<and> 1 \<notin> set (map col_id ps))"
proof (intro conjI)
  show "fst (serve (up noon) (PostPosts (body (replicate 101 97) (ascii ''hello''))) started) =
       InternalServerError StringDataRightTruncation"
    by code_simp
  show "stored (snd (serve (up noon) (PostPosts (body (replicate 101 97) (ascii ''hello''))) started)) = []"
    by code_simp
  show "fst (serve (up noon) (PostPosts (body [0] (ascii ''hello''))) started) =
       InternalServerError ValueError"
    by code_simp
  show "stored (snd (serve (up noon) (PostPosts (body [0] (ascii ''hello''))) started)) = []"
    by code_simp
  show "fst (serve (up noon) (PostPosts (body [55296] (ascii ''hello''))) started) =
       InternalServerError UnicodeEncodeError"
    by (simp add: started_eq body_valid respond_def create_post_def get_db_def up_def
        insert_post_def adapt_str_def scalar_value_def)
  show "stored (snd (serve (up noon) (PostPosts (body [55296] (ascii ''hello''))) started)) = []"
    by (simp add: started_eq body_valid respond_def create_post_def get_db_def up_def
        insert_post_def adapt_str_def scalar_value_def stored_def)
  show "run (replicate 50 (up later, PostPosts (body (ascii ''bob'') []))) started = fifty_posts"
    by (rule fifty_posts_reached)
  show "fst (serve (up noon) (PostPosts (body (ascii ''alice'') (ascii ''hello''))) fifty_posts) =
       OK (JObj [(ascii ''id'', JInt 51), (ascii ''message'', JStr (ascii ''Post created!''))])"
    unfolding fifty_posts_create by simp
  show "\<exists>ps. fst (serve (up later) GetPosts
            (snd (serve (up noon) (PostPosts (body (ascii ''alice'') (ascii ''hello''))) fifty_posts)))
         = OK (JObj [(ascii ''posts'', JArr (map post_dict ps))])
       \<and> length ps = 50 \<and> 51 \<notin> set (map col_id ps)"
    by (rule fifty_posts_listing)
  show "run ((up noon, PostPosts (body (ascii ''alice'') (ascii ''hello'')))
         # replicate 50 (up later, PostPosts (body (ascii ''bob'') []))) started = alice_first"
    by (rule alice_first_reached)
  show "\<exists>ps. fst (serve (up later) GetPosts alice_first)
         = OK (JObj [(ascii ''posts'', JArr (map post_dict ps))])
       \<and> length ps = 50 \<and> 1 \<notin> set (map col_id ps)"
    by (rule alice_first_listing)
qed

section \<open>Counting posts\<close>

lemma get_stats_ok:
  assumes "connect_ok e" and "posts_table s = Some t"
  shows "get_stats e s =
     (Inr (JObj [(ascii ''total_posts'', JInt (int (length (rows t)))),
                 (ascii ''docker_magic'', JStr [128051, 10024])]), s)"
  using assms by (simp add: get_stats_def get_db_ok select_count_def conn_close_def)

lemma insert_values_count:
  "length (rows (snd (insert_values ts u c t))) =
     length (rows t) + (case fst (insert_values ts u c t) of Inl err \<Rightarrow> 0 | Inr i \<Rightarrow> 1)"
  by (simp add: insert_values_def nextval_def split: sum.splits)

lemma insert_post_count:
  "insert_post ts u c (Some t) = (r, d) \<Longrightarrow>
   \<exists>t'. d = Some t' \<and> length (rows t') = length (rows t) + (case r of Inl err \<Rightarrow> 0 | Inr i \<Rightarrow> 1)"
proof (cases "adapt_str u = Inr u \<and> adapt_str c = Inr c")
  case False
  then obtain err where e: "insert_post ts u c (Some t) = (Inl err, Some t)"
    using insert_post_refused [of u c ts "Some t"] by blast
  assume "insert_post ts u c (Some t) = (r, d)"
  with e show ?thesis by auto
next
  case True
  assume "insert_post ts u c (Some t) = (r, d)"
  then show ?thesis
    using insert_values_count [of ts u c t] True
    by (cases "insert_values ts u c t") (auto simp: insert_post_adapted)
qed

lemma create_post_count:
  assumes "posts_table s = Some t"
  shows "\<exists>t'. posts_table (snd (create_post e post s)) = Some t' \<and>
     length (rows t') = length (rows t) +
       (case fst (create_post e post s) of Inl err \<Rightarrow> 0 | Inr j \<Rightarrow> 1)"
proof (cases "connect_ok e")
  case False
  then show ?thesis using assms by (simp add: create_post_def get_db_down)
next
  case True
  obtain r d where i: "insert_post (now e) (username post) (content post) (Some t) = (r, d)"
    by (cases "insert_post (now e) (username post) (content post) (Some t)")
  from insert_post_count [OF i] obtain t' where "d = Some t'"
    and "length (rows t') = length (rows t) + (case r of Inl err \<Rightarrow> 0 | Inr i \<Rightarrow> 1)"
    by blast
  then show ?thesis
    using True assms i
    by (cases r) (simp_all add: create_post_def get_db_ok conn_close_def)
qed

lemma serve_count:
  assumes "posts_table s = Some t"
  shows "\<exists>t'. posts_table (snd (serve e r s)) = Some t' \<and>
     length (rows t') = length (rows t) + (if created r (fst (serve e r s)) then 1 else 0)"
proof (cases r)
  case GetRoot
  then show ?thesis using assms by (simp add: read_root_def respond_def)
next
  case GetPosts
  then show ?thesis using assms get_posts_frame [of e s] by (simp add: respond_def)
next
  case GetStats
  then show ?thesis using assms get_stats_frame [of e s] by (simp add: respond_def)
next
  case (PostPosts b)
  show ?thesis
  proof (cases "validate_post b")
    case (Inl errs)
    then show ?thesis using assms PostPosts by simp
  next
    case (Inr post)
    then show ?thesis
      using create_post_count [OF assms, of e post] PostPosts
      by (cases "fst (create_post e post s)") (auto simp: respond_def)
  qed
qed

lemma inserted_Cons:
  "inserted (x # xs) (r # rs) = (if created (snd x) r then 1 else 0) + inserted xs rs"
  by (simp add: inserted_def)

lemma run_count:
  assumes "posts_table s = Some t"
  shows "\<exists>t'. posts_table (run xs s) = Some t' \<and>
     length (rows t') = length (rows t) + inserted xs (responses xs s)"
  using assms
proof (induction xs arbitrary: s t)
  case Nil
  then show ?case by (simp add: inserted_def)
next
  case (Cons x xs)
  from serve_count [OF Cons.prems, of "fst x" "snd x"] obtain t1
    where t1: "posts_table (snd (serve (fst x) (snd x) s)) = Some t1"
      and n1: "length (rows t1) = length (rows t) +
          (if created (snd x) (fst (serve (fst x) (snd x) s)) then 1 else 0)"
    by blast
  from Cons.IH [OF t1] obtain t' where
    "posts_table (run xs (snd (serve (fst x) (snd x) s))) = Some t'"
    "length (rows t') = length (rows t1) + inserted xs (responses xs (snd (serve (fst x) (snd x) s)))"
    by blast
  then show ?case
    using n1 by (simp add: inserted_Cons)
qed

lemma serve_stored_mono: "length (stored s) \<le> length (stored (snd (serve e r s)))"
proof (cases "posts_table s")
  case None
  then show ?thesis by (simp add: stored_def)
next
  case (Some t)
  from serve_count [OF Some, of e r] show ?thesis
    using Some by (auto simp: stored_def)
qed

lemma run_stored_mono: "length (stored s) \<le> length (stored (run xs s))"
proof (induction xs arbitrary: s)
  case Nil
  then show ?case by simp
next
  case (Cons x xs)
  show ?case
    using serve_stored_mono [of s "fst x" "snd x"] Cons.IH [of "snd (serve (fst x) (snd x) s)"]
    by simp
qed

lemma run_append: "run (xs @ ys) s = run ys (run xs s)"
  by (induction xs arbitrary: s) simp_all

text \<open>
  C4. With the database reachable, \<^verbatim>\<open>GET /stats\<close> returns as \<^verbatim>\<open>total_posts\<close> the
  number of rows of the table, together with the constant \<^verbatim>\<open>docker_magic\<close>. After any
  run of requests from a fresh database that number is the number of \<^verbatim>\<open>POST /posts\<close>
  requests of the run that were answered with success; on the fresh database it is 0; and
  the number of rows never decreases along a run.
\<close>

theorem stats_counts_inserted_posts:
  assumes "connect_ok e0" and "connect_ok e"
  shows "fst (get_stats e (run xs (snd (startup e0 fresh)))) =
           Inr (JObj [(ascii ''total_posts'',
                         JInt (int (inserted xs (responses xs (snd (startup e0 fresh)))))),
                      (ascii ''docker_magic'', JStr [128051, 10024])])
       \<and> (posts_table s = Some t \<longrightarrow>
            fst (get_stats e s) =
              Inr (JObj [(ascii ''total_posts'', JInt (int (length (rows t)))),
                         (ascii ''docker_magic'', JStr [128051, 10024])]))
       \<and> fst (get_stats e (snd (startup e0 fresh))) =
           Inr (JObj [(ascii ''total_posts'', JInt 0),
                      (ascii ''docker_magic'', JStr [128051, 10024])])
       \<and> length (stored (run xs s)) \<le> length (stored (run (xs @ ys) s))"
proof -
  have st: "posts_table (snd (startup e0 fresh)) = Some \<lparr>rows = [], seq = 1\<rparr>"
    using assms(1) by (simp add: startup_ok fresh_def create_table_if_not_exists_def)
  from run_count [OF st, of xs] obtain t' where
    t': "posts_table (run xs (snd (startup e0 fresh))) = Some t'"
    and n: "length (rows t') = inserted xs (responses xs (snd (startup e0 fresh)))"
    by auto
  have a: "fst (get_stats e (run xs (snd (startup e0 fresh)))) =
           Inr (JObj [(ascii ''total_posts'',
                         JInt (int (inserted xs (responses xs (snd (startup e0 fresh)))))),
                      (ascii ''docker_magic'', JStr [128051, 10024])])"
    using get_stats_ok [OF assms(2) t'] n by simp
  have b: "posts_table s = Some t \<longrightarrow>
            fst (get_stats e s) =
              Inr (JObj [(ascii ''total_posts'', JInt (int (length (rows t)))),
                         (ascii ''docker_magic'', JStr [128051, 10024])])"
    using get_stats_ok [OF assms(2)] by simp
  have c: "fst (get_stats e (snd (startup e0 fresh))) =
           Inr (JObj [(ascii ''total_posts'', JInt 0),
                      (ascii ''docker_magic'', JStr [128051, 10024])])"
    using get_stats_ok [OF assms(2) st] by simp
  have d: "length (stored (run xs s)) \<le> length (stored (run (xs @ ys) s))"
    using run_stored_mono [of "run xs s" ys] by (simp add: run_append)
  show ?thesis
    by (intro conjI a b c d)
qed

theorem stats_counts_inserted_posts_witness:
  "connect_ok (up noon) \<and> connect_ok (up later)
   \<and> inserted mixed_run (responses mixed_run (snd (startup (up noon) fresh))) = 2
   \<and> fst (get_stats (up later) (run mixed_run (snd (startup (up noon) fresh)))) =
        Inr (JObj [(ascii ''total_posts'', JInt 2),
                   (ascii ''docker_magic'', JStr [128051, 10024])])
   \<and> posts_table two_posts = Some two_rows
   \<and> fst (get_stats (up later) two_posts) =
        Inr (JObj [(ascii ''total_posts'', JInt (int (length (rows two_rows)))),
                   (ascii ''docker_magic'', JStr [128051, 10024])])
   \<and> fst (get_stats (up later) (snd (startup (up noon) fresh))) =
        Inr (JObj [(ascii ''total_posts'', JInt 0),
                   (ascii ''docker_magic'', JStr [128051, 10024])])"
proof -
  have c: "connect_ok (up noon)" and c': "connect_ok (up later)"
    by (simp_all add: up_def)
  have t: "posts_table two_posts = Some two_rows"
    by (simp add: two_posts_def)
  have n: "inserted mixed_run (responses mixed_run (snd (startup (up noon) fresh))) = 2"
    by code_simp
  note r = stats_counts_inserted_posts [OF c c', of mixed_run two_posts two_rows "[]"]
  from r have r1: "fst (get_stats (up later) (run mixed_run (snd (startup (up noon) fresh)))) =
        Inr (JObj [(ascii ''total_posts'', JInt 2),
                   (ascii ''docker_magic'', JStr [128051, 10024])])"
    unfolding n by simp
  from r t have r2: "fst (get_stats (up later) two_posts) =
        Inr (JObj [(ascii ''total_posts'', JInt (int (length (rows two_rows)))),
                   (ascii ''docker_magic'', JStr [128051, 10024])])"
    by blast
  from r have r3: "fst (get_stats (up later) (snd (startup (up noon) fresh))) =
        Inr (JObj [(ascii ''total_posts'', JInt 0),
                   (ascii ''docker_magic'', JStr [128051, 10024])])"
    by blast
  show ?thesis
    by (intro conjI c c' n r1 t r2 r3)
qed

section \<open>Closing connections\<close>

text \<open>
  C7 fails on the code. \<^verbatim>\<open>conn.close()\<close> is the last statement but one of each handler
  and is not reached when a statement before it raises: after \<^verbatim>\<open>POST /posts\<close> with a
  username of 101 letters on the started database the response is a server error and the
  connection that the handler opened is still open; so it is after \<^verbatim>\<open>GET /posts\<close> and
  \<^verbatim>\<open>GET /stats\<close> when the table is absent. The same handler closes its connection when
  it succeeds.
\<close>

theorem failed_request_keeps_connection_open:
  "open_conns started = 0
   \<and> fst (serve (up noon) (PostPosts (body (replicate 101 97) (ascii ''hello''))) started) =
       InternalServerError StringDataRightTruncation
   \<and> open_conns (snd (serve (up noon) (PostPosts (body (replicate 101 97) (ascii ''hello''))) started)) = 1
   \<and> open_conns fresh = 0
   \<and> serve (up noon) GetPosts fresh = (InternalServerError UndefinedTable, fresh\<lparr>open_conns := 1\<rparr>)
   \<and> serve (up noon) GetStats fresh = (InternalServerError UndefinedTable, fresh\<lparr>open_conns := 1\<rparr>)
   \<and> open_conns (snd (serve (up noon) (PostPosts (body (ascii ''alice'') (ascii ''hello''))) started)) = 0"
  by code_simp

section \<open>The scenario of the first post\<close>

text \<open>
  C8. On a fresh database that \<^verbatim>\<open>startup\<close> has prepared, with the database reachable,
  \<^verbatim>\<open>POST /posts\<close> of alice's hello is answered with id 1 and \<^verbatim>\<open>Post created!\<close>, and
  \<^verbatim>\<open>GET /posts\<close> then returns exactly that post, with the time of its insertion as a
  string.
\<close>

theorem alice_scenario:
  assumes "connect_ok e0" and "connect_ok e1" and "connect_ok e2"
    and "s1 = \<lparr>posts_table = Some \<lparr>rows = [\<lparr>col_id = 1, col_username = ascii ''alice'',
                 col_content = ascii ''hello'', col_created_at = now e1\<rparr>], seq = 2\<rparr>,
               open_conns = 0\<rparr>"
  shows "serve e1 (PostPosts (JObj [(ascii ''username'', JStr (ascii ''alice'')),
                                   (ascii ''content'', JStr (ascii ''hello''))]))
               (snd (startup e0 fresh))
           = (OK (JObj [(ascii ''id'', JInt 1), (ascii ''message'', JStr (ascii ''Post created!''))]), s1)
       \<and> serve e2 GetPosts s1
           = (OK (JObj [(ascii ''posts'', JArr
                 [JObj [(ascii ''id'', JInt 1),
                        (ascii ''username'', JStr (ascii ''alice'')),
                        (ascii ''content'', JStr (ascii ''hello'')),
                        (ascii ''created_at'', JStr (str_datetime (now e1)))]])]), s1)"
proof -
  have st: "snd (startup e0 fresh) = \<lparr>posts_table = Some \<lparr>rows = [], seq = 1\<rparr>, open_conns = 0\<rparr>"
    using assms(1) by (simp add: startup_ok fresh_def create_table_if_not_exists_def)
  have v: "validate_post (JObj [(ascii ''username'', JStr (ascii ''alice'')),
                                   (ascii ''content'', JStr (ascii ''hello''))])
      = Inr \<lparr>username = ascii ''alice'', content = ascii ''hello''\<rparr>"
    using body_valid [of "ascii ''alice''" "ascii ''hello''"] by (simp add: body_def)
  have vc: "varchar 100 (ascii ''alice'') = Inr (ascii ''alice'')"
    by code_simp
  have ad: "adapt_str (ascii ''alice'') = Inr (ascii ''alice'')"
    "adapt_str (ascii ''hello'') = Inr (ascii ''hello'')"
    by code_simp+
  have a: "serve e1 (PostPosts (JObj [(ascii ''username'', JStr (ascii ''alice'')),
                                   (ascii ''content'', JStr (ascii ''hello''))]))
               (snd (startup e0 fresh))
           = (OK (JObj [(ascii ''id'', JInt 1), (ascii ''message'', JStr (ascii ''Post created!''))]), s1)"
    using assms(2)
    by (simp add: st v respond_def create_post_def get_db_ok insert_post_adapted [OF ad]
        insert_values_def vc nextval_def conn_close_def assms(4))
  have b: "serve e2 GetPosts s1
           = (OK (JObj [(ascii ''posts'', JArr
                 [JObj [(ascii ''id'', JInt 1),
                        (ascii ''username'', JStr (ascii ''alice'')),
                        (ascii ''content'', JStr (ascii ''hello'')),
                        (ascii ''created_at'', JStr (str_datetime (now e1)))]])]), s1)"
    using assms(3)
    by (simp add: respond_def get_posts_def get_db_ok select_posts_def conn_close_def assms(4)
        order_by_created_at_desc_def post_dict_def)
  show ?thesis
    by (intro conjI a b)
qed

theorem alice_scenario_witness:
  "connect_ok (up noon) \<and> connect_ok (up later)
   \<and> serve (up later) (PostPosts (JObj [(ascii ''username'', JStr (ascii ''alice'')),
                                        (ascii ''content'', JStr (ascii ''hello''))]))
        (snd (startup (up noon) fresh))
       = (OK (JObj [(ascii ''id'', JInt 1), (ascii ''message'', JStr (ascii ''Post created!''))]),
          alice_posted)
   \<and> serve (up noon) GetPosts alice_posted
       = (OK (JObj [(ascii ''posts'', JArr
             [JObj [(ascii ''id'', JInt 1),
                    (ascii ''username'', JStr (ascii ''alice'')),
                    (ascii ''content'', JStr (ascii ''hello'')),
                    (ascii ''created_at'', JStr (str_datetime (now (up later))))]])]), alice_posted)
   \<and> str_datetime (now (up later)) = ascii ''2024-05-17 12:30:09.000250''"
proof -
  have c: "connect_ok (up noon)" and c': "connect_ok (up later)"
    by (simp_all add: up_def)
  have s: "alice_posted = \<lparr>posts_table = Some \<lparr>rows = [\<lparr>col_id = 1, col_username = ascii ''alice'',
                 col_content = ascii ''hello'', col_created_at = now (up later)\<rparr>], seq = 2\<rparr>,
               open_conns = 0\<rparr>"
    by (simp add: alice_posted_def up_def)
  have d: "str_datetime (now (up later)) = ascii ''2024-05-17 12:30:09.000250''"
    by code_simp
  note r = alice_scenario [OF c c' c s]
  show ?thesis
    by (intro conjI c c' r [THEN conjunct1] r [THEN conjunct2] d)
qed

section \<open>A username that does not fit\<close>

lemma varchar_overlong:
  "\<exists>x \<in> set (drop n v). x \<noteq> 32 \<Longrightarrow> varchar n v = Inl StringDataRightTruncation"
  by (cases "length v \<le> n") (auto simp: varchar_def list_all_iff)

lemma insert_post_overlong:
  assumes "\<exists>x \<in> set (drop 100 u). x \<noteq> 32"
  shows "\<exists>err. insert_post ts u c d = (Inl err, d) \<and>
     (adapt_str u = Inr u \<and> adapt_str c = Inr c \<and> d \<noteq> None
        \<longrightarrow> err = StringDataRightTruncation)"
proof (cases "adapt_str u = Inr u \<and> adapt_str c = Inr c")
  case False
  then show ?thesis
    using insert_post_refused [of u c ts d] by blast
next
  case True
  then show ?thesis
    by (cases d)
       (auto simp: insert_post_adapted insert_values_def varchar_overlong [OF assms])
qed

lemma create_post_padded:
  assumes up: "connect_ok e" and tab: "posts_table s = Some t"
    and inv: "ids_increasing t" and lim: "seq t \<le> 2147483647"
    and enc: "list_all scalar_value u" "list_all scalar_value c"
    and nul: "0 \<notin> set u" "0 \<notin> set c"
    and fit: "list_all (\<lambda>x. x = 32) (drop 100 u)"
  shows "serve e (PostPosts (body u c)) s =
     (OK (JObj [(ascii ''id'', JInt (seq t)), (ascii ''message'', JStr (ascii ''Post created!''))]),
      s\<lparr>posts_table := Some \<lparr>rows = rows t @
          [\<lparr>col_id = seq t, col_username = take 100 u, col_content = c,
            col_created_at = now e\<rparr>], seq = seq t + 1\<rparr>\<rparr>)"
proof -
  have below: "list_all (\<lambda>r. col_id r < seq t) (rows t)"
    using inv by (simp add: ids_increasing_def)
  have "insert_post (now e) u c (Some t) =
      (Inr (seq t), Some \<lparr>rows = rows t @
          [\<lparr>col_id = seq t, col_username = take 100 u, col_content = c,
            col_created_at = now e\<rparr>], seq = seq t + 1\<rparr>)"
    by (simp add: insert_post_adapted [OF adapt_str_ok [OF enc(1) nul(1)] adapt_str_ok [OF enc(2) nul(2)]]
        insert_values_ok [OF fit lim below])
  then show ?thesis
    using up tab
    by (simp add: body_valid respond_def create_post_def get_db_ok conn_close_def)
qed

text \<open>
  C10, as amended. A body whose \<^verbatim>\<open>username\<close> has a character other than a space after
  its first 100 characters passes validation; the request is answered with a server
  error, not with a validation error, and the stored rows are the rows before. With the
  database reachable, the table present and no lone surrogate and no NUL character in the
  strings, the error is the one of the \<^verbatim>\<open>VARCHAR(100)\<close> column. A \<^verbatim>\<open>username\<close> of more
  than 100 characters with nothing but spaces after the first 100 passes validation as
  well; with the database reachable, the ids of the table below the next value of a
  sequence that is not beyond 2147483647, and no lone surrogate and no NUL character in
  the strings, the request succeeds and stores the row with the first 100 characters as
  its \<^verbatim>\<open>username\<close>.
\<close>

theorem overlong_username_fails_in_storage:
  "validate_post (body u c) = Inr \<lparr>username = u, content = c\<rparr>
   \<and> ((\<exists>x \<in> set (drop 100 u). x \<noteq> 32) \<longrightarrow>
        (\<exists>err. fst (serve e (PostPosts (body u c)) s) = InternalServerError err
            \<and> (connect_ok e \<and> posts_table s \<noteq> None
                 \<and> list_all scalar_value u \<and> list_all scalar_value c
                 \<and> 0 \<notin> set u \<and> 0 \<notin> set c
                 \<longrightarrow> err = StringDataRightTruncation))
        \<and> stored (snd (serve e (PostPosts (body u c)) s)) = stored s)
   \<and> (100 < length u \<and> list_all (\<lambda>x. x = 32) (drop 100 u)
        \<and> connect_ok e \<and> posts_table s = Some t \<and> ids_increasing t \<and> seq t \<le> 2147483647
        \<and> list_all scalar_value u \<and> list_all scalar_value c \<and> 0 \<notin> set u \<and> 0 \<notin> set c
      \<longrightarrow> serve e (PostPosts (body u c)) s =
            (OK (JObj [(ascii ''id'', JInt (seq t)),
                       (ascii ''message'', JStr (ascii ''Post created!''))]),
             s\<lparr>posts_table := Some \<lparr>rows = rows t @
                [\<lparr>col_id = seq t, col_username = take 100 u, col_content = c,
                  col_created_at = now e\<rparr>], seq = seq t + 1\<rparr>\<rparr>))"
proof (intro conjI impI)
  show "validate_post (body u c) = Inr \<lparr>username = u, content = c\<rparr>"
    by (rule body_valid)
next
  assume long: "\<exists>x \<in> set (drop 100 u). x \<noteq> 32"
  show "\<exists>err. fst (serve e (PostPosts (body u c)) s) = InternalServerError err
            \<and> (connect_ok e \<and> posts_table s \<noteq> None
                 \<and> list_all scalar_value u \<and> list_all scalar_value c
                 \<and> 0 \<notin> set u \<and> 0 \<notin> set c
                 \<longrightarrow> err = StringDataRightTruncation)"
  proof (cases "connect_ok e")
    case False
    then show ?thesis
      by (simp add: body_valid respond_def create_post_def get_db_down)
  next
    case True
    from insert_post_overlong [OF long, of "now e" c "posts_table s"] obtain err where
      i: "insert_post (now e) u c (posts_table s) = (Inl err, posts_table s)"
      and k: "adapt_str u = Inr u \<and> adapt_str c = Inr c \<and> posts_table s \<noteq> None
              \<longrightarrow> err = StringDataRightTruncation"
      by blast
    have "fst (serve e (PostPosts (body u c)) s) = InternalServerError err"
      using True i by (simp add: body_valid respond_def create_post_def get_db_ok)
    moreover have "connect_ok e \<and> posts_table s \<noteq> None
                 \<and> list_all scalar_value u \<and> list_all scalar_value c
                 \<and> 0 \<notin> set u \<and> 0 \<notin> set c
                 \<longrightarrow> err = StringDataRightTruncation"
      using k adapt_str_ok by blast
    ultimately show ?thesis by blast
  qed
next
  assume long: "\<exists>x \<in> set (drop 100 u). x \<noteq> 32"
  show "stored (snd (serve e (PostPosts (body u c)) s)) = stored s"
  proof (cases "connect_ok e")
    case False
    then show ?thesis
      by (simp add: body_valid respond_def create_post_def get_db_down)
  next
    case True
    from insert_post_overlong [OF long, of "now e" c "posts_table s"] obtain err where
      "insert_post (now e) u c (posts_table s) = (Inl err, posts_table s)"
      by blast
    then show ?thesis
      using True by (simp add: body_valid respond_def create_post_def get_db_ok stored_def)
  qed
next
  assume h: "100 < length u \<and> list_all (\<lambda>x. x = 32) (drop 100 u)
        \<and> connect_ok e \<and> posts_table s = Some t \<and> ids_increasing t \<and> seq t \<le> 2147483647
        \<and> list_all scalar_value u \<and> list_all scalar_value c \<and> 0 \<notin> set u \<and> 0 \<notin> set c"
  then show "serve e (PostPosts (body u c)) s =
            (OK (JObj [(ascii ''id'', JInt (seq t)),
                       (ascii ''message'', JStr (ascii ''Post created!''))]),
             s\<lparr>posts_table := Some \<lparr>rows = rows t @
                [\<lparr>col_id = seq t, col_username = take 100 u, col_content = c,
                  col_created_at = now e\<rparr>], seq = seq t + 1\<rparr>\<rparr>)"
    by (intro create_post_padded) simp_all
qed

theorem overlong_username_fails_in_storage_witness:
  "(\<exists>x \<in> set (drop 100 (replicate 101 (97::nat))). x \<noteq> 32)
   \<and> validate_post (body (replicate 101 97) (ascii ''hello''))
       = Inr \<lparr>username = replicate 101 97, content = ascii ''hello''\<rparr>
   \<and> fst (serve (up noon) (PostPosts (body (replicate 101 97) (ascii ''hello''))) two_posts)
       = InternalServerError StringDataRightTruncation
   \<and> stored (snd (serve (up noon) (PostPosts (body (replicate 101 97) (ascii ''hello''))) two_posts))
       = stored two_posts
   \<and> 100 < length (replicate 100 (97::nat) @ [32, 32])
   \<and> list_all (\<lambda>x. x = 32) (drop 100 (replicate 100 (97::nat) @ [32, 32]))
   \<and> ids_increasing two_rows
   \<and> serve (up noon) (PostPosts (body (replicate 100 97 @ [32, 32]) (ascii ''hello''))) two_posts =
       (OK (JObj [(ascii ''id'', JInt (seq two_rows)),
                  (ascii ''message'', JStr (ascii ''Post created!''))]),
        two_posts\<lparr>posts_table := Some \<lparr>rows = rows two_rows @
           [\<lparr>col_id = seq two_rows, col_username = take 100 (replicate 100 97 @ [32, 32]),
             col_content = ascii ''hello'', col_created_at = now (up noon)\<rparr>],
           seq = seq two_rows + 1\<rparr>\<rparr>)
   \<and> take 100 (replicate 100 (97::nat) @ [32, 32]) = replicate 100 97"
proof -
  have h: "\<exists>x \<in> set (drop 100 (replicate 101 (97::nat))). x \<noteq> 32"
    by code_simp
  note r = overlong_username_fails_in_storage
    [of "replicate 101 97" "ascii ''hello''" "up noon" two_posts two_rows]
  have g: "connect_ok (up noon) \<and> posts_table two_posts \<noteq> None
      \<and> list_all scalar_value (replicate 101 97) \<and> list_all scalar_value (ascii ''hello'')
      \<and> 0 \<notin> set (replicate 101 (97::nat)) \<and> 0 \<notin> set (ascii ''hello'')"
    by code_simp
  from r h g have e: "fst (serve (up noon) (PostPosts (body (replicate 101 97) (ascii ''hello''))) two_posts)
       = InternalServerError StringDataRightTruncation"
    by blast
  from r have v: "validate_post (body (replicate 101 97) (ascii ''hello''))
       = Inr \<lparr>username = replicate 101 97, content = ascii ''hello''\<rparr>"
    by blast
  from r h have p: "stored (snd (serve (up noon) (PostPosts (body (replicate 101 97) (ascii ''hello''))) two_posts))
       = stored two_posts"
    by blast
  note r' = overlong_username_fails_in_storage
    [of "replicate 100 97 @ [32, 32]" "ascii ''hello''" "up noon" two_posts two_rows]
  have l: "100 < length (replicate 100 (97::nat) @ [32, 32])"
    by simp
  have f: "list_all (\<lambda>x. x = 32) (drop 100 (replicate 100 (97::nat) @ [32, 32]))"
    by simp
  have i: "ids_increasing two_rows"
    by (simp add: ids_increasing_def two_rows_def)
  have g': "connect_ok (up noon) \<and> posts_table two_posts = Some two_rows
      \<and> seq two_rows \<le> 2147483647
      \<and> list_all scalar_value (replicate 100 97 @ [32, 32]) \<and> list_all scalar_value (ascii ''hello'')
      \<and> 0 \<notin> set (replicate 100 (97::nat) @ [32, 32]) \<and> 0 \<notin> set (ascii ''hello'')"
    by code_simp
  from r' l f i g' have ok: "serve (up noon) (PostPosts (body (replicate 100 97 @ [32, 32]) (ascii ''hello''))) two_posts =
       (OK (JObj [(ascii ''id'', JInt (seq two_rows)),
                  (ascii ''message'', JStr (ascii ''Post created!''))]),
        two_posts\<lparr>posts_table := Some \<lparr>rows = rows two_rows @
           [\<lparr>col_id = seq two_rows, col_username = take 100 (replicate 100 97 @ [32, 32]),
             col_content = ascii ''hello'', col_created_at = now (up noon)\<rparr>],
           seq = seq two_rows + 1\<rparr>\<rparr>)"
    by blast
  have c: "take 100 (replicate 100 (97::nat) @ [32, 32]) = replicate 100 97"
    by simp
  show ?thesis
    by (intro conjI h v e p l f i ok c)
qed

text \<open>
  C10 as stated fails: a username of 100 letters and a space has 101 characters, and
  PostgreSQL stores it cut to the 100 letters; the request succeeds.
\<close>

theorem padded_username_counterexample:
  "length (replicate 100 (97::nat) @ [32]) = 101
   \<and> serve (up noon) (PostPosts (body (replicate 100 97 @ [32]) (ascii ''hello''))) started =
     (OK (JObj [(ascii ''id'', JInt 1), (ascii ''message'', JStr (ascii ''Post created!''))]),
      \<lparr>posts_table = Some \<lparr>rows = [\<lparr>col_id = 1, col_username = replicate 100 97,
           col_content = ascii ''hello'', col_created_at = noon\<rparr>], seq = 2\<rparr>, open_conns = 0\<rparr>)"
  by code_simp

end
